theory Spec2Isabelle
  imports Main
begin

section \<open>Data model\<close>

text \<open>
  Python \<open>str\<close> values are modelled as \<^typ>\<open>string\<close>; a \<^typ>\<open>char\<close> stands for the
  code point of the same number, so the model covers the strings whose code points are
  below 256. Python integers are unbounded and modelled as \<^typ>\<open>int\<close> (the interpreter's
  optional limit on the length of integer literals is not modelled). Exceptions are values
  of the type \<open>error\<close>; a function that can raise returns \<open>error + 'a\<close>.
\<close>

datatype error = ValueError | TypeError | IndexError | OverflowError | NameError | OtherError

text \<open>
  A cell of a row: a string, an integer, a float or \<open>None\<close>. The float type is a
  parameter: the program only uses floats through the built-in operations collected in
  the record \<open>float_ops\<close>: \<open>float(s)\<close>, \<open>f.is_integer()\<close>, \<open>int(f)\<close>, \<open>str(f)\<close>,
  \<open>'%f' % f\<close>, the truth value of \<open>f\<close>, and \<open>f == g\<close> for a float or an integer \<open>g\<close>.
\<close>

datatype 'f cell = CStr string | CInt int | CFloat 'f | CNone

record 'f float_ops =
  fl_parse :: "string \<Rightarrow> 'f option"
  fl_is_integer :: "'f \<Rightarrow> bool"
  fl_to_int :: "'f \<Rightarrow> error + int"
  fl_str :: "'f \<Rightarrow> string"
  fl_fmt_f :: "'f \<Rightarrow> string"
  fl_truthy :: "'f \<Rightarrow> bool"
  fl_eq :: "'f \<Rightarrow> 'f \<Rightarrow> bool"
  fl_eq_int :: "'f \<Rightarrow> int \<Rightarrow> bool"

section \<open>Built-in string and integer operations\<close>

definition is_digit :: "char \<Rightarrow> bool" where
  "is_digit c = (c \<in> set ''0123456789'')"

definition digit_val :: "char \<Rightarrow> nat" where
  "digit_val c = of_char c - 48"

text \<open>The characters \<open>str.strip()\<close> removes (those for which \<open>str.isspace\<close> holds).\<close>

definition str_space :: "char \<Rightarrow> bool" where
  "str_space c = ((of_char c :: nat) \<in> {9, 10, 11, 12, 13, 28, 29, 30, 31, 32, 133, 160})"

text \<open>The characters \<open>int()\<close> skips around a literal.\<close>

definition int_space :: "char \<Rightarrow> bool" where
  "int_space c = ((of_char c :: nat) \<in> {9, 10, 11, 12, 13, 32, 133, 160})"

definition strip_with :: "(char \<Rightarrow> bool) \<Rightarrow> string \<Rightarrow> string" where
  "strip_with sp s = rev (dropWhile sp (rev (dropWhile sp s)))"

definition strip :: "string \<Rightarrow> string" where
  "strip s = strip_with str_space s"

text \<open>\<open>s.split(d)\<close> for a one-character separator: never returns the empty list.\<close>

fun split_on :: "char \<Rightarrow> string \<Rightarrow> string list" where
  "split_on d [] = [[]]"
| "split_on d (c # cs) =
     (if c = d then [] # split_on d cs
      else (case split_on d cs of p # ps \<Rightarrow> (c # p) # ps | [] \<Rightarrow> [[c]]))"

text \<open>
  The digits of a base-10 integer literal, with single underscores allowed between
  digits; \<open>acc\<close> is the value read so far.
\<close>

fun int_digits :: "nat \<Rightarrow> string \<Rightarrow> nat option" where
  "int_digits acc [] = Some acc"
| "int_digits acc (c # cs) =
     (if is_digit c then int_digits (10 * acc + digit_val c) cs
      else if c = CHR ''_'' then
        (case cs of [] \<Rightarrow> None
         | d # ds \<Rightarrow> if is_digit d then int_digits acc cs else None)
      else None)"

definition int_body :: "string \<Rightarrow> nat option" where
  "int_body s = (case s of [] \<Rightarrow> None
                 | c # cs \<Rightarrow> if is_digit c then int_digits 0 s else None)"

text \<open>\<open>int(s)\<close> for a string \<open>s\<close>; \<open>None\<close> stands for \<open>ValueError\<close>.\<close>

definition int_parse :: "string \<Rightarrow> int option" where
  "int_parse s =
     (case strip_with int_space s of
        [] \<Rightarrow> None
      | c # cs \<Rightarrow>
          if c = CHR ''-'' then map_option (\<lambda>n. - int n) (int_body cs)
          else if c = CHR ''+'' then map_option int (int_body cs)
          else map_option int (int_body (c # cs)))"

text \<open>\<open>str(n)\<close> for an integer \<open>n\<close>.\<close>

definition digit_char :: "nat \<Rightarrow> char" where
  "digit_char d = ''0123456789'' ! d"

fun str_nat :: "nat \<Rightarrow> string" where
  "str_nat n = (if n < 10 then [digit_char n] else str_nat (n div 10) @ [digit_char (n mod 10)])"

declare str_nat.simps [simp del]

definition str_int :: "int \<Rightarrow> string" where
  "str_int i = (if i < 0 then CHR ''-'' # str_nat (nat (- i)) else str_nat (nat i))"

section \<open>Field ranges: \<open>parse_range\<close>\<close>

type_synonym field_range = "int \<times> int option"

text \<open>The body of the loop of \<open>parse_range\<close>, for one token \<open>r\<close>.\<close>

definition parse_token :: "string \<Rightarrow> error + field_range" where
  "parse_token r =
     (case split_on CHR ''-'' r of
        [p] \<Rightarrow> (case int_parse p of None \<Rightarrow> Inl ValueError
                | Some m \<Rightarrow> Inr (m - 1, Some m))
      | [n, m] \<Rightarrow>
          (case (if n = [] then Some 0 else map_option (\<lambda>v. v - 1) (int_parse n)) of
             None \<Rightarrow> Inl ValueError
           | Some n' \<Rightarrow>
               (if m = [] then Inr (n', None)
                else (case int_parse m of None \<Rightarrow> Inl ValueError
                      | Some m' \<Rightarrow> Inr (n', Some m'))))
      | _ \<Rightarrow> Inl ValueError)"

fun parse_tokens :: "field_range list \<Rightarrow> string list \<Rightarrow> error + field_range list" where
  "parse_tokens f [] = Inr f"
| "parse_tokens f (r # rs) =
     (case parse_token r of Inl e \<Rightarrow> Inl e
      | Inr nm \<Rightarrow> parse_tokens (f @ [nm]) rs)"

definition range_tokens :: "string \<Rightarrow> string list" where
  "range_tokens s = map strip (split_on CHR '','' s)"

definition parse_range :: "string \<Rightarrow> error + field_range list" where
  "parse_range s = parse_tokens [] (range_tokens s)"

section \<open>Numeric coercion: \<open>numeric\<close>\<close>

text \<open>
  \<open>re_numeric\<close>: an optional currency symbol, an optional run of commas and digits, an
  optional point with optional digits, then \<open>$\<close>, which matches at the end of the string
  or before a final newline. Of the currency symbols in the character class, the dollar,
  pound and yen signs have code points below 256.
\<close>

definition currency_symbols :: string where
  "currency_symbols = [CHR ''$'', CHR 0xA3, CHR 0xA5]"

definition re_numeric_body :: "string \<Rightarrow> bool" where
  "re_numeric_body s =
     (let s1 = (case s of [] \<Rightarrow> s | c # cs \<Rightarrow> if c \<in> set currency_symbols then cs else s);
          s2 = dropWhile (\<lambda>c. c = CHR '','' \<or> is_digit c) s1
      in case s2 of [] \<Rightarrow> True
         | c # cs \<Rightarrow> c = CHR ''.'' \<and> dropWhile is_digit cs = [])"

definition re_numeric_match :: "string \<Rightarrow> bool" where
  "re_numeric_match s =
     (re_numeric_body s \<or> (s \<noteq> [] \<and> last s = CHR 0x0A \<and> re_numeric_body (butlast s)))"

text \<open>\<open>str(x)\<close> and the truth value of a cell.\<close>

definition py_str :: "'f float_ops \<Rightarrow> 'f cell \<Rightarrow> string" where
  "py_str F x = (case x of CStr s \<Rightarrow> s | CInt n \<Rightarrow> str_int n
                 | CFloat f \<Rightarrow> fl_str F f | CNone \<Rightarrow> ''None'')"

definition py_truthy :: "'f float_ops \<Rightarrow> 'f cell \<Rightarrow> bool" where
  "py_truthy F x = (case x of CStr s \<Rightarrow> s \<noteq> [] | CInt n \<Rightarrow> n \<noteq> 0
                    | CFloat f \<Rightarrow> fl_truthy F f | CNone \<Rightarrow> False)"

text \<open>The rewriting of \<open>y\<close> when the pattern matched (lines 43 to 47).\<close>

definition numeric_text :: "string \<Rightarrow> string" where
  "numeric_text y =
     (if re_numeric_match y then
        (let y1 = (case y of c # cs \<Rightarrow> if c = CHR ''$'' then cs else y | [] \<Rightarrow> y)
         in if CHR '','' \<in> set y1 then filter (\<lambda>c. c \<noteq> CHR '','') y1 else y1)
      else y)"

text \<open>
  \<open>numeric(x)\<close>. A \<open>ValueError\<close> of \<open>int(y)\<close>, \<open>float(y)\<close> or of the narrowing
  \<open>int(y)\<close> is suppressed; any other exception propagates.
\<close>

definition numeric :: "'f float_ops \<Rightarrow> 'f cell \<Rightarrow> error + 'f cell" where
  "numeric F x =
     (let y = numeric_text (py_str F x)
      in case int_parse y of
           Some n \<Rightarrow> Inr (CInt n)
         | None \<Rightarrow>
             (case fl_parse F y of
                None \<Rightarrow> Inr x
              | Some f \<Rightarrow>
                  if fl_is_integer F f then
                    (case fl_to_int F f of
                       Inr n \<Rightarrow> Inr (CInt n)
                     | Inl e \<Rightarrow> if e = ValueError then Inr x else Inl e)
                  else Inr (CFloat f)))"

section \<open>The row pipeline of \<open>main\<close>\<close>

text \<open>
  Python slices of a list of length \<open>len\<close>: a negative index counts from the end, and
  both ends are clipped to the list.
\<close>

definition slice_index :: "nat \<Rightarrow> int \<Rightarrow> nat" where
  "slice_index len i = (if i < 0 then nat (max (i + int len) 0) else min (nat i) len)"

definition slice_stop :: "nat \<Rightarrow> int option \<Rightarrow> nat" where
  "slice_stop len m = (case m of None \<Rightarrow> len | Some e \<Rightarrow> slice_index len e)"

text \<open>\<open>xs[n:m]\<close>\<close>

definition get_slice :: "'a list \<Rightarrow> int \<Rightarrow> int option \<Rightarrow> 'a list" where
  "get_slice xs n m =
     (let a = slice_index (length xs) n; b = slice_stop (length xs) m
      in take (b - a) (drop a xs))"

text \<open>\<open>xs[n:m] = ys\<close>\<close>

definition set_slice :: "'a list \<Rightarrow> int \<Rightarrow> int option \<Rightarrow> 'a list \<Rightarrow> 'a list" where
  "set_slice xs n m ys =
     (let a = slice_index (length xs) n; b = max a (slice_stop (length xs) m)
      in take a xs @ ys @ drop b xs)"

text \<open>\<open>sep.join(xs)\<close>: raises \<open>TypeError\<close> when an item is not a string.\<close>

fun cell_strs :: "'f cell list \<Rightarrow> error + string list" where
  "cell_strs [] = Inr []"
| "cell_strs (CStr s # xs) =
     (case cell_strs xs of Inl e \<Rightarrow> Inl e | Inr ss \<Rightarrow> Inr (s # ss))"
| "cell_strs (x # xs) = Inl TypeError"

fun join_strs :: "string \<Rightarrow> string list \<Rightarrow> string" where
  "join_strs sep [] = []"
| "join_strs sep [s] = s"
| "join_strs sep (s # t # ts) = s @ sep @ join_strs sep (t # ts)"

definition str_join :: "string \<Rightarrow> 'f cell list \<Rightarrow> error + string" where
  "str_join sep xs = (case cell_strs xs of Inl e \<Rightarrow> Inl e | Inr ss \<Rightarrow> Inr (join_strs sep ss))"

record 'f options =
  heading_lines :: int
  func :: "(int \<Rightarrow> 'f cell list \<Rightarrow> error + 'f cell list option) option"
  join_fields :: "field_range list"
  joinchar :: string
  keep :: "field_range list"
  args :: "string list"

text \<open>
  The cooking of \<open>--join\<close> (lines 414 to 420): the first character is the separator,
  the rest is a field specification, and the ranges are reversed.
\<close>

definition cook_join :: "string \<Rightarrow> error + string \<times> field_range list" where
  "cook_join j =
     (case j of [] \<Rightarrow> Inr ([], [])
      | c # spec \<Rightarrow> (case parse_range spec of Inl e \<Rightarrow> Inl e | Inr f \<Rightarrow> Inr ([c], rev f)))"

text \<open>One pass of the loop of line 555: \<open>row[n:m] = [joinchar.join([x for x in row[n:m] if x])]\<close>.\<close>

definition join_range :: "'f float_ops \<Rightarrow> string \<Rightarrow> 'f cell list \<Rightarrow> field_range \<Rightarrow> error + 'f cell list" where
  "join_range F sep row nm =
     (case str_join sep (filter (py_truthy F) (get_slice row (fst nm) (snd nm))) of
        Inl e \<Rightarrow> Inl e
      | Inr s \<Rightarrow> Inr (set_slice row (fst nm) (snd nm) [CStr s]))"

fun join_stage :: "'f float_ops \<Rightarrow> string \<Rightarrow> 'f cell list \<Rightarrow> field_range list \<Rightarrow> error + 'f cell list" where
  "join_stage F sep row [] = Inr row"
| "join_stage F sep row (nm # rest) =
     (case join_range F sep row nm of Inl e \<Rightarrow> Inl e
      | Inr row' \<Rightarrow> join_stage F sep row' rest)"

text \<open>The loop of lines 558 to 561.\<close>

fun keep_stage :: "'a list \<Rightarrow> field_range list \<Rightarrow> 'a list" where
  "keep_stage row [] = []"
| "keep_stage row (nm # rest) = get_slice row (fst nm) (snd nm) @ keep_stage row rest"

text \<open>\<open>[numeric(v) for v in row]\<close>\<close>

fun numeric_row :: "'f float_ops \<Rightarrow> 'f cell list \<Rightarrow> error + 'f cell list" where
  "numeric_row F [] = Inr []"
| "numeric_row F (v # vs) =
     (case numeric F v of Inl e \<Rightarrow> Inl e
      | Inr w \<Rightarrow> (case numeric_row F vs of Inl e \<Rightarrow> Inl e | Inr ws \<Rightarrow> Inr (w # ws)))"

text \<open>
  Lines 545 to 553 for the row with counter \<open>i\<close>: the coercion and the user function,
  for data rows only. \<open>Inr None\<close> is the \<open>continue\<close> of line 553.
\<close>

definition data_stage :: "'f float_ops \<Rightarrow> 'f options \<Rightarrow> int \<Rightarrow> 'f cell list \<Rightarrow> error + 'f cell list option" where
  "data_stage F opt i row =
     (if i > heading_lines opt then
        (case numeric_row F row of
           Inl e \<Rightarrow> Inl e
         | Inr row1 \<Rightarrow>
             (case func opt of None \<Rightarrow> Inr (Some row1)
              | Some f \<Rightarrow> f (i - heading_lines opt) row1))
      else Inr (Some row))"

text \<open>
  The body of the loop of \<open>main\<close> (lines 544 to 562) for the row with counter \<open>i\<close>:
  the row handed to \<open>writer.writerow\<close>, \<open>None\<close> when the row is dropped.
\<close>

definition process_row :: "'f float_ops \<Rightarrow> 'f options \<Rightarrow> int \<Rightarrow> 'f cell list \<Rightarrow> error + 'f cell list option" where
  "process_row F opt i row =
     (case data_stage F opt i row of
        Inl e \<Rightarrow> Inl e
      | Inr None \<Rightarrow> Inr None
      | Inr (Some row2) \<Rightarrow>
          (case join_stage F (joinchar opt) row2 (join_fields opt) of
             Inl e \<Rightarrow> Inl e
           | Inr row3 \<Rightarrow>
               Inr (Some (if keep opt \<noteq> [] then keep_stage row3 (keep opt) else row3))))"

section \<open>The table writer\<close>

text \<open>
  Output text is made of the characters of cells and of the three box-drawing
  characters the writer uses: \<open>BoxV\<close> is U+2502 (vertical bar), \<open>BoxH\<close> is U+2500
  (horizontal bar) and \<open>BoxX\<close> is U+253C (cross).
\<close>

datatype glyph = G char | BoxV | BoxH | BoxX

type_synonym out_text = "glyph list"

definition glyphs :: "string \<Rightarrow> out_text" where
  "glyphs s = map G s"

text \<open>The styles \<open>main\<close> accepts for \<open>--outfmt=table\<close> (line 433).\<close>

datatype table_style = box | ascii | nosep

record 'f table_writer =
  none_as :: string
  style :: table_style
  col_sep :: out_text
  head_sep :: out_text
  markdown :: bool
  data :: "'f cell list list"

text \<open>\<open>TableWriter.__init__\<close> with the flags \<open>style\<close> and \<open>markdown\<close>, the two \<open>main\<close> passes.\<close>

definition TableWriter :: "table_style \<Rightarrow> bool \<Rightarrow> 'f table_writer" where
  "TableWriter st md =
     \<lparr> none_as = [], style = st,
       col_sep = (case st of box \<Rightarrow> [G CHR '' '', BoxV, G CHR '' '']
                  | ascii \<Rightarrow> glyphs '' | '' | nosep \<Rightarrow> glyphs '' ''),
       head_sep = (case st of box \<Rightarrow> [BoxH] | ascii \<Rightarrow> glyphs ''-'' | nosep \<Rightarrow> []),
       markdown = md, data = [] \<rparr>"

text \<open>\<open>TableWriter.writerow\<close>\<close>

definition writerow :: "'f table_writer \<Rightarrow> 'f cell list \<Rightarrow> 'f table_writer" where
  "writerow w row =
     w \<lparr> data := data w @ [map (\<lambda>v. if v = CNone then CStr (none_as w) else v) row] \<rparr>"

text \<open>\<open>width(x)\<close>\<close>

definition width :: "'f float_ops \<Rightarrow> 'f cell \<Rightarrow> nat" where
  "width F x = (case x of CStr s \<Rightarrow> length s | _ \<Rightarrow> length (py_str F x))"

definition rjust :: "nat \<Rightarrow> string \<Rightarrow> string" where
  "rjust w s = replicate (w - length s) CHR '' '' @ s"

definition ljust :: "nat \<Rightarrow> string \<Rightarrow> string" where
  "ljust w s = s @ replicate (w - length s) CHR '' ''"

text \<open>
  \<open>tabfmt(val, width)\<close>: \<open>%*d\<close> and \<open>%*f\<close> pad on the left, \<open>%-*s\<close> pads on the right;
  none of them truncates.
\<close>

definition tabfmt :: "'f float_ops \<Rightarrow> 'f cell \<Rightarrow> nat \<Rightarrow> string" where
  "tabfmt F val w =
     (case val of
        CInt n \<Rightarrow> rjust w (str_int n)
      | CFloat f \<Rightarrow> rjust w (fl_fmt_f F f)
      | _ \<Rightarrow> ljust w (py_str F val))"

text \<open>\<open>xs[c]\<close> for an index \<open>c\<close> that is not negative.\<close>

definition item :: "'a list \<Rightarrow> nat \<Rightarrow> error + 'a" where
  "item xs c = (if c < length xs then Inr (xs ! c) else Inl IndexError)"

text \<open>\<open>[width(self.data[r][c]) for r in range(len(self.data))]\<close>, row by row.\<close>

fun column_cells :: "'f float_ops \<Rightarrow> 'f cell list list \<Rightarrow> nat \<Rightarrow> error + nat list" where
  "column_cells F [] c = Inr []"
| "column_cells F (row # rows) c =
     (case item row c of Inl e \<Rightarrow> Inl e
      | Inr v \<Rightarrow> (case column_cells F rows c of Inl e \<Rightarrow> Inl e
                  | Inr ws \<Rightarrow> Inr (width F v # ws)))"

text \<open>\<open>reduce(max, ws)\<close>: raises \<open>TypeError\<close> on the empty list.\<close>

definition reduce_max :: "nat list \<Rightarrow> error + nat" where
  "reduce_max ws = (case ws of [] \<Rightarrow> Inl TypeError | v # vs \<Rightarrow> Inr (foldl max v vs))"

text \<open>The list \<open>wid\<close> (lines 222 to 225), for the columns \<open>cs\<close>.\<close>

fun column_widths :: "'f float_ops \<Rightarrow> 'f cell list list \<Rightarrow> nat list \<Rightarrow> error + nat list" where
  "column_widths F d [] = Inr []"
| "column_widths F d (c # cs) =
     (case column_cells F d c of Inl e \<Rightarrow> Inl e
      | Inr ws \<Rightarrow> (case reduce_max ws of Inl e \<Rightarrow> Inl e
                   | Inr m \<Rightarrow> (case column_widths F d cs of Inl e \<Rightarrow> Inl e
                                | Inr ms \<Rightarrow> Inr (m # ms))))"

text \<open>\<open>[tabfmt(row[c], wid[c]) for c in range(len(row))]\<close>; \<open>c\<close> is the index of the first cell.\<close>

fun format_cells :: "'f float_ops \<Rightarrow> nat list \<Rightarrow> nat \<Rightarrow> 'f cell list \<Rightarrow> error + out_text list" where
  "format_cells F wid c [] = Inr []"
| "format_cells F wid c (v # vs) =
     (case item wid c of Inl e \<Rightarrow> Inl e
      | Inr w \<Rightarrow> (case format_cells F wid (Suc c) vs of Inl e \<Rightarrow> Inl e
                  | Inr ts \<Rightarrow> Inr (glyphs (tabfmt F v w) # ts)))"

text \<open>\<open>[self.head_sep * wid[c] for c in range(len(row))]\<close>\<close>

fun rule_cells :: "out_text \<Rightarrow> nat list \<Rightarrow> nat \<Rightarrow> 'a list \<Rightarrow> error + out_text list" where
  "rule_cells hs wid c [] = Inr []"
| "rule_cells hs wid c (v # vs) =
     (case item wid c of Inl e \<Rightarrow> Inl e
      | Inr w \<Rightarrow> (case rule_cells hs wid (Suc c) vs of Inl e \<Rightarrow> Inl e
                  | Inr ts \<Rightarrow> Inr (concat (replicate w hs) # ts)))"

text \<open>\<open>sep.join(ts)\<close> and \<open>s.replace(a, bs)\<close> on output text.\<close>

fun join_text :: "out_text \<Rightarrow> out_text list \<Rightarrow> out_text" where
  "join_text sep [] = []"
| "join_text sep [s] = s"
| "join_text sep (s # t # ts) = s @ sep @ join_text sep (t # ts)"

definition replace_glyph :: "glyph \<Rightarrow> out_text \<Rightarrow> out_text \<Rightarrow> out_text" where
  "replace_glyph a bs s = concat (map (\<lambda>g. if g = a then bs else [g]) s)"

text \<open>The separator of the divider line (lines 239 to 241).\<close>

definition rule_sep :: "'f table_writer \<Rightarrow> out_text" where
  "rule_sep w =
     replace_glyph (G CHR ''|'') [G CHR ''+'']
       (replace_glyph BoxV [BoxX] (replace_glyph (G CHR '' '') (head_sep w) (col_sep w)))"

text \<open>
  What is written to the output file, one entry for each line: the line of a row, or
  the divider that follows heading rows.
\<close>

datatype out_line = RowLine out_text | Divider out_text

definition newline :: out_text where
  "newline = [G (CHR 0x0A)]"

text \<open>
  \<open>writerows\<close> reads \<open>opt.heading_lines\<close>, and \<open>opt\<close> is not a name of its own: it is
  looked up among the globals of the module. The model takes the result of that lookup
  as the argument \<open>g\<close>: \<open>Some h\<close> when a global \<open>opt\<close> with heading count \<open>h\<close> exists,
  \<open>None\<close> when the name is unbound and the lookup raises \<open>NameError\<close>. In the module as
  it is, \<open>opt\<close> is a local variable of \<open>main\<close>, which is the case \<open>None\<close>.
\<close>

text \<open>
  The fixed-width loop (lines 227 to 244) from row number \<open>r\<close> on. The result is what
  was written and the exception that ended the loop, if any.
\<close>

fun table_rows :: "'f float_ops \<Rightarrow> 'f table_writer \<Rightarrow> int option \<Rightarrow> nat list \<Rightarrow> int
    \<Rightarrow> 'f cell list list \<Rightarrow> out_line list \<times> error option" where
  "table_rows F w g wid r [] = ([], None)"
| "table_rows F w g wid r (row # rows) =
     (case format_cells F wid 0 row of
        Inl e \<Rightarrow> ([], Some e)
      | Inr ts \<Rightarrow>
          (let l = RowLine (join_text (col_sep w) ts @ newline) in
           case g of
             None \<Rightarrow> ([l], Some NameError)
           | Some h \<Rightarrow>
               if h > 0 \<and> r < h \<and> style w \<noteq> nosep then
                 (case rule_cells (head_sep w) wid 0 row of
                    Inl e \<Rightarrow> ([l], Some e)
                  | Inr us \<Rightarrow>
                      (let (out, err) = table_rows F w g wid (r + 1) rows
                       in (l # Divider (join_text (rule_sep w) us @ newline) # out, err)))
               else
                 (let (out, err) = table_rows F w g wid (r + 1) rows
                  in (l # out, err))))"

text \<open>The Markdown loop (lines 210 to 219).\<close>

fun markdown_rows :: "'f float_ops \<Rightarrow> int option \<Rightarrow> int \<Rightarrow> 'f cell list list
    \<Rightarrow> out_line list \<times> error option" where
  "markdown_rows F g r [] = ([], None)"
| "markdown_rows F g r (row # rows) =
     (let l = RowLine (glyphs ''| ''
                @ join_text (glyphs '' | '') (map (\<lambda>v. glyphs (py_str F v)) row) @ newline) in
      case g of
        None \<Rightarrow> ([l], Some NameError)
      | Some h \<Rightarrow>
          (let (out, err) = markdown_rows F g (r + 1) rows
           in (l # (if h > 0 \<and> r = h - 1
                    then [Divider (concat (replicate (length row) (glyphs ''|-'')) @ newline)]
                    else []) @ out, err)))"

text \<open>
  \<open>TableWriter.writerows()\<close> without rows: renders the accumulated data, and clears
  them when no exception was raised.
\<close>

definition writerows :: "'f float_ops \<Rightarrow> int option \<Rightarrow> 'f table_writer
    \<Rightarrow> 'f table_writer \<times> out_line list \<times> error option" where
  "writerows F g w =
     (if data w = [] then (w, [], None)
      else if markdown w then
        (let (out, err) = markdown_rows F g 0 (data w)
         in (if err = None then w \<lparr> data := [] \<rparr> else w, out, err))
      else
        (case column_widths F (data w) [0 ..< length (hd (data w))] of
           Inl e \<Rightarrow> (w, [], Some e)
         | Inr wid \<Rightarrow>
             (let (out, err) = table_rows F w g wid 0 (data w)
              in (if err = None then w \<lparr> data := [] \<rparr> else w, out, err))))"

section \<open>The writers and the driver\<close>










section \<open>A reference float\<close>

text \<open>
  A float type to run the program on: exact decimal values, printed in positional
  notation. \<open>DFin neg m k\<close> is the value \<open>m / 10 ^ k\<close>, negated when \<open>neg\<close> holds. It does
  not round to binary64, and it agrees with the floats of CPython on the decimals of the
  examples below (few digits, moderate magnitude).
\<close>

datatype dfloat = DFin bool nat nat | DInf bool | DNaN

text \<open>Trailing zeros of the fraction are dropped.\<close>

fun dnorm :: "nat \<Rightarrow> nat \<Rightarrow> nat \<times> nat" where
  "dnorm m 0 = (m, 0)"
| "dnorm m (Suc k) = (if m mod 10 = 0 then dnorm (m div 10) k else (m, Suc k))"

definition to_lower :: "char \<Rightarrow> char" where
  "to_lower c = (if 65 \<le> (of_char c :: nat) \<and> (of_char c :: nat) \<le> 90
                 then char_of (of_char c + (32 :: nat)) else c)"

text \<open>A run of digits with underscores between them: its value and its number of digits.\<close>

definition digit_part :: "string \<Rightarrow> (nat \<times> nat) option" where
  "digit_part s = (if s = [] then Some (0, 0)
                   else map_option (\<lambda>v. (v, length (filter is_digit s))) (int_body s))"

definition dec_exponent :: "string \<Rightarrow> int option" where
  "dec_exponent s =
     (case s of [] \<Rightarrow> None
      | c # cs \<Rightarrow>
          if c = CHR ''-'' then map_option (\<lambda>n. - int n) (int_body cs)
          else if c = CHR ''+'' then map_option int (int_body cs)
          else map_option int (int_body s))"

text \<open>The digits before the exponent: the integer they spell and the number of decimals.\<close>

definition dec_mantissa :: "string \<Rightarrow> (nat \<times> nat) option" where
  "dec_mantissa s =
     (let ip = takeWhile (\<lambda>c. c \<noteq> CHR ''.'') s; r = dropWhile (\<lambda>c. c \<noteq> CHR ''.'') s
      in case r of
           [] \<Rightarrow> map_option (\<lambda>v. (v, 0)) (int_body ip)
         | p # fp \<Rightarrow>
             if ip = [] \<and> fp = [] then None
             else (case digit_part ip of None \<Rightarrow> None
                   | Some (iv, il) \<Rightarrow>
                       (case digit_part fp of None \<Rightarrow> None
                        | Some (fv, fl) \<Rightarrow> Some (iv * 10 ^ fl + fv, fl))))"

definition not_e :: "char \<Rightarrow> bool" where
  "not_e c = (c \<noteq> CHR ''e'' \<and> c \<noteq> CHR ''E'')"

definition dec_number :: "string \<Rightarrow> (nat \<times> nat) option" where
  "dec_number s =
     (case dec_mantissa (takeWhile not_e s) of
        None \<Rightarrow> None
      | Some (m0, k0) \<Rightarrow>
          (case dropWhile not_e s of
             [] \<Rightarrow> Some (dnorm m0 k0)
           | e # ex \<Rightarrow>
               (case dec_exponent ex of
                  None \<Rightarrow> None
                | Some x \<Rightarrow>
                    Some (if int k0 \<le> x then (m0 * 10 ^ nat (x - int k0), 0)
                          else dnorm m0 (nat (int k0 - x))))))"

text \<open>\<open>float(s)\<close>\<close>

definition dfloat_parse :: "string \<Rightarrow> dfloat option" where
  "dfloat_parse s =
     (case strip_with int_space s of
        [] \<Rightarrow> None
      | c # cs \<Rightarrow>
          (let neg = (c = CHR ''-'');
               body = (if c = CHR ''-'' \<or> c = CHR ''+'' then cs else c # cs);
               low = map to_lower body
           in if low = ''inf'' \<or> low = ''infinity'' then Some (DInf neg)
              else if low = ''nan'' then Some DNaN
              else map_option (\<lambda>(m, k). DFin neg m k) (dec_number body)))"

definition zero_pad :: "nat \<Rightarrow> string \<Rightarrow> string" where
  "zero_pad k s = replicate (k - length s) CHR ''0'' @ s"

text \<open>\<open>str(f)\<close>\<close>

definition dfloat_str :: "dfloat \<Rightarrow> string" where
  "dfloat_str f =
     (case f of
        DNaN \<Rightarrow> ''nan''
      | DInf neg \<Rightarrow> (if neg then ''-inf'' else ''inf'')
      | DFin neg m k \<Rightarrow>
          (if neg then ''-'' else '''') @ str_nat (m div 10 ^ k) @ ''.''
          @ (if k = 0 then ''0'' else zero_pad k (str_nat (m mod 10 ^ k))))"

text \<open>\<open>'%f' % f\<close>: six decimals, ties to even.\<close>

definition round6 :: "nat \<Rightarrow> nat \<Rightarrow> nat" where
  "round6 m k =
     (if k \<le> 6 then m * 10 ^ (6 - k)
      else (let d = 10 ^ (k - 6); q = m div d; r = m mod d
            in if 2 * r > d \<or> (2 * r = d \<and> odd q) then q + 1 else q))"

definition dfloat_fmt_f :: "dfloat \<Rightarrow> string" where
  "dfloat_fmt_f f =
     (case f of
        DNaN \<Rightarrow> ''nan''
      | DInf neg \<Rightarrow> (if neg then ''-inf'' else ''inf'')
      | DFin neg m k \<Rightarrow>
          (let q = round6 m k
           in (if neg then ''-'' else '''') @ str_nat (q div 10 ^ 6) @ ''.''
              @ zero_pad 6 (str_nat (q mod 10 ^ 6))))"

definition dfloat_is_integer :: "dfloat \<Rightarrow> bool" where
  "dfloat_is_integer f = (case f of DFin neg m k \<Rightarrow> m mod 10 ^ k = 0 | _ \<Rightarrow> False)"

text \<open>\<open>int(f)\<close>\<close>

definition dfloat_to_int :: "dfloat \<Rightarrow> error + int" where
  "dfloat_to_int f =
     (case f of
        DFin neg m k \<Rightarrow> Inr (if neg then - int (m div 10 ^ k) else int (m div 10 ^ k))
      | DInf neg \<Rightarrow> Inl OverflowError
      | DNaN \<Rightarrow> Inl ValueError)"

definition dfloat_truthy :: "dfloat \<Rightarrow> bool" where
  "dfloat_truthy f = (case f of DFin neg m k \<Rightarrow> m \<noteq> 0 | _ \<Rightarrow> True)"

text \<open>\<open>f == g\<close>: a NaN equals nothing, and the two zeros are equal.\<close>

definition dfloat_eq :: "dfloat \<Rightarrow> dfloat \<Rightarrow> bool" where
  "dfloat_eq f g =
     (case f of
        DNaN \<Rightarrow> False
      | DInf a \<Rightarrow> (case g of DInf b \<Rightarrow> a = b | _ \<Rightarrow> False)
      | DFin a m k \<Rightarrow>
          (case g of
             DFin b n j \<Rightarrow> m * 10 ^ j = n * 10 ^ k \<and> (a = b \<or> m = 0)
           | _ \<Rightarrow> False))"

definition dfloat_eq_int :: "dfloat \<Rightarrow> int \<Rightarrow> bool" where
  "dfloat_eq_int f n =
     (case f of
        DFin a m k \<Rightarrow> m mod 10 ^ k = 0
          \<and> (if a then - int (m div 10 ^ k) else int (m div 10 ^ k)) = n
      | _ \<Rightarrow> False)"

definition dfloat_ops :: "dfloat float_ops" where
  "dfloat_ops =
     \<lparr> fl_parse = dfloat_parse, fl_is_integer = dfloat_is_integer,
       fl_to_int = dfloat_to_int, fl_str = dfloat_str, fl_fmt_f = dfloat_fmt_f,
       fl_truthy = dfloat_truthy, fl_eq = dfloat_eq, fl_eq_int = dfloat_eq_int \<rparr>"

section \<open>Notions used in the statements\<close>

text \<open>
  When a token of a field specification is rejected, in the words of the specification:
  it has more than one \<open>-\<close>, or one of its numeric pieces is present and is not a valid
  integer.
\<close>

definition piece_invalid :: "string \<Rightarrow> bool" where
  "piece_invalid p = (p \<noteq> [] \<and> int_parse p = None)"

definition claimed_fails :: "string \<Rightarrow> bool" where
  "claimed_fails t =
     (let ps = split_on CHR ''-'' t in 2 < length ps \<or> list_ex piece_invalid ps)"

text \<open>The same, and the empty token.\<close>

definition token_fails :: "string \<Rightarrow> bool" where
  "token_fails t = (t = [] \<or> claimed_fails t)"

text \<open>The range of a token by the rules for \<open>N\<close>, \<open>N-\<close>, \<open>-M\<close> and \<open>N-M\<close>.\<close>

definition token_range :: "string \<Rightarrow> field_range" where
  "token_range t =
     (case split_on CHR ''-'' t of
        [n, m] \<Rightarrow> (if n = [] then 0 else the (int_parse n) - 1,
                   if m = [] then None else Some (the (int_parse m)))
      | _ \<Rightarrow> (the (int_parse t) - 1, Some (the (int_parse t))))"


text \<open>Option sets of the examples.\<close>

definition heading_example :: "dfloat options" where
  "heading_example = \<lparr> heading_lines = 1, func = None, join_fields = [(0, Some 2)],
     joinchar = ''-'', keep = [(1, None), (0, Some 1)], args = [] \<rparr>"

definition join_example :: "dfloat options" where
  "join_example = \<lparr> heading_lines = 0, func = None, join_fields = [(0, Some 2)],
     joinchar = ''-'', keep = [], args = [] \<rparr>"



text \<open>The divider lines of an output, and the tables of the examples.\<close>

definition is_divider :: "out_line \<Rightarrow> bool" where
  "is_divider l = (case l of Divider t \<Rightarrow> True | RowLine t \<Rightarrow> False)"

definition dividers :: "out_line list \<Rightarrow> nat" where
  "dividers out = length (filter is_divider out)"

definition heading_table :: "dfloat table_writer" where
  "heading_table = writerow (writerow (writerow (TableWriter ascii False)
     [CStr ''name'']) [CStr ''unit'']) [CStr ''x'']"

definition decimal_table :: "dfloat table_writer" where
  "decimal_table = writerow (writerow (TableWriter ascii False)
     [CFloat (DFin False 325 2)]) [CStr ''a'']"

text \<open>
  What the properties of \<open>numeric\<close> need from the floats. \<open>float_repr_ok F f\<close>: \<open>str(f)\<close>
  reads back as \<open>f\<close>, is not an integer literal, and has no dollar sign and no comma.
  \<open>float_ops_ok F\<close>: \<open>int(f)\<close> succeeds when \<open>f.is_integer()\<close> holds, and every float that
  \<open>float()\<close> returns has such a \<open>str\<close>. CPython documents both for its floats.
\<close>

definition float_repr_ok :: "'f float_ops \<Rightarrow> 'f \<Rightarrow> bool" where
  "float_repr_ok F f =
     (fl_parse F (fl_str F f) = Some f \<and> int_parse (fl_str F f) = None
      \<and> CHR ''$'' \<notin> set (fl_str F f) \<and> CHR '','' \<notin> set (fl_str F f))"

definition float_ops_ok :: "'f float_ops \<Rightarrow> bool" where
  "float_ops_ok F =
     ((\<forall>f. fl_is_integer F f \<longrightarrow> (\<exists>n. fl_to_int F f = Inr n))
      \<and> (\<forall>s f. fl_parse F s = Some f \<longrightarrow> float_repr_ok F f))"

text \<open>A string that starts with a currency symbol of the pattern other than the dollar sign.\<close>

definition other_currency :: "string \<Rightarrow> bool" where
  "other_currency s = (case s of [] \<Rightarrow> False
                       | c # cs \<Rightarrow> c \<in> set currency_symbols \<and> c \<noteq> CHR ''$'')"

text \<open>
  The text the parses are tried on, in the words of the claim: when the string matches
  the pattern, a single leading currency symbol is stripped and the grouping separators
  are removed.
\<close>

definition cleaned :: "string \<Rightarrow> string" where
  "cleaned s =
     (if re_numeric_match s
      then filter (\<lambda>c. c \<noteq> CHR '','')
             (case s of c # cs \<Rightarrow> if c \<in> set currency_symbols then cs else s | [] \<Rightarrow> s)
      else s)"

text \<open>The reference floats without trailing zeros, and the decimals \<open>dfloat_str\<close> prints.\<close>

definition dnormal :: "dfloat \<Rightarrow> bool" where
  "dnormal f = (case f of DFin neg m k \<Rightarrow> k = 0 \<or> m mod 10 \<noteq> 0 | _ \<Rightarrow> True)"

definition frac_digits :: "nat \<Rightarrow> nat \<Rightarrow> string" where
  "frac_digits m k = (if k = 0 then ''0'' else zero_pad k (str_nat (m mod 10 ^ k)))"

text \<open>Cells that are strings or \<open>None\<close>, the text of such a cell, and float cells.\<close>

definition stringy :: "'f cell \<Rightarrow> bool" where
  "stringy x = (case x of CStr s \<Rightarrow> True | CNone \<Rightarrow> True | _ \<Rightarrow> False)"

definition cell_text :: "'f cell \<Rightarrow> string" where
  "cell_text x = (case x of CStr s \<Rightarrow> s | _ \<Rightarrow> [])"

definition is_float :: "'f cell \<Rightarrow> bool" where
  "is_float x = (case x of CFloat f \<Rightarrow> True | _ \<Rightarrow> False)"

text \<open>The width of column \<open>c\<close> of the rows \<open>d\<close>: the largest width of its cells.\<close>

definition column_width :: "'f float_ops \<Rightarrow> 'f cell list list \<Rightarrow> nat \<Rightarrow> nat" where
  "column_width F d c =
     (case map (\<lambda>row. width F (row ! c)) d of [] \<Rightarrow> 0 | v # vs \<Rightarrow> foldl max v vs)"

text \<open>\<open>a == b\<close> for two cells.\<close>

definition py_eq :: "'f float_ops \<Rightarrow> 'f cell \<Rightarrow> 'f cell \<Rightarrow> bool" where
  "py_eq F a b =
     (case a of
        CStr s \<Rightarrow> (case b of CStr t \<Rightarrow> s = t | _ \<Rightarrow> False)
      | CInt m \<Rightarrow> (case b of CInt n \<Rightarrow> m = n | CFloat g \<Rightarrow> fl_eq_int F g m | _ \<Rightarrow> False)
      | CFloat f \<Rightarrow> (case b of CInt n \<Rightarrow> fl_eq_int F f n | CFloat g \<Rightarrow> fl_eq F f g
                    | _ \<Rightarrow> False)
      | CNone \<Rightarrow> (case b of CNone \<Rightarrow> True | _ \<Rightarrow> False))"








definition beyond_example :: "dfloat options" where
  "beyond_example = \<lparr> heading_lines = 0, func = None, join_fields = [(4, Some 6)],
     joinchar = ''-'', keep = [], args = [] \<rparr>"

section \<open>Evaluation of the built-in operations\<close>

lemma str_nat_small: "n < 10 \<Longrightarrow> str_nat n = [digit_char n]"
  by (subst str_nat.simps) simp

lemma str_nat_big: "\<not> n < 10 \<Longrightarrow> str_nat n = str_nat (n div 10) @ [digit_char (n mod 10)]"
  by (subst str_nat.simps) simp

lemmas str_nat_eval = str_nat_small str_nat_big digit_char_def

section \<open>Field ranges\<close>

lemma parse_token_err: "parse_token t = Inl e \<Longrightarrow> e = ValueError"
  by (auto simp: parse_token_def split: list.splits option.splits if_splits)

lemma parse_tokens_char:
  "parse_tokens f ts =
     (if \<exists>t\<in>set ts. parse_token t = Inl ValueError then Inl ValueError
      else Inr (f @ map (\<lambda>t. projr (parse_token t)) ts))"
proof (induction ts arbitrary: f)
  case Nil
  then show ?case by simp
next
  case (Cons t ts)
  show ?case
  proof (cases "parse_token t")
    case (Inl e)
    then have "e = ValueError" by (rule parse_token_err)
    with Inl show ?thesis by simp
  next
    case (Inr nm)
    then show ?thesis using Cons.IH [of "f @ [nm]"] by auto
  qed
qed

lemma split_on_not_Nil [simp]: "split_on d s \<noteq> []"
  by (induction s) (auto split: list.splits)

lemma split_on_no_sep: "p \<in> set (split_on d s) \<Longrightarrow> d \<notin> set p"
  by (induction s arbitrary: p) (auto split: list.splits if_splits)

lemma split_on_single: "split_on d s = [p] \<Longrightarrow> p = s"
  by (induction s arbitrary: p) (auto split: list.splits if_splits)

lemma parse_token_fails_iff: "parse_token t = Inl ValueError \<longleftrightarrow> token_fails t"
proof (cases "split_on CHR ''-'' t")
  case Nil
  then show ?thesis by simp
next
  case (Cons p ps)
  note c1 = Cons
  show ?thesis
  proof (cases ps)
    case Nil
    with c1 have "p = t" by (simp add: split_on_single)
    with c1 Nil show ?thesis
      by (cases "t = []")
         (auto simp: parse_token_def token_fails_def claimed_fails_def piece_invalid_def
               int_parse_def strip_with_def split: option.splits)
  next
    case (Cons q qs)
    with c1 have "t \<noteq> []" by auto
    with c1 Cons show ?thesis
      by (cases qs)
         (auto simp: parse_token_def token_fails_def claimed_fails_def piece_invalid_def
               split: option.splits)
  qed
qed

lemma parse_token_range: "\<not> token_fails t \<Longrightarrow> parse_token t = Inr (token_range t)"
proof -
  assume nf: "\<not> token_fails t"
  then have ok: "parse_token t \<noteq> Inl ValueError" by (simp add: parse_token_fails_iff)
  show ?thesis
  proof (cases "split_on CHR ''-'' t")
    case Nil
    then show ?thesis by simp
  next
    case (Cons p ps)
    note c1 = Cons
    show ?thesis
    proof (cases ps)
      case Nil
      with c1 have "p = t" by (simp add: split_on_single)
      with c1 Nil ok show ?thesis
        by (auto simp: parse_token_def token_range_def split: option.splits)
    next
      case (Cons q qs)
      with c1 ok show ?thesis
        by (cases qs) (auto simp: parse_token_def token_range_def split: option.splits if_splits)
    qed
  qed
qed
lemma set_strip_with: "set (strip_with sp s) \<subseteq> set s"
  unfolding strip_with_def by (auto dest!: set_dropWhileD)

lemma int_parse_nonneg:
  assumes "int_parse p = Some v" and "CHR ''-'' \<notin> set p"
  shows "0 \<le> v"
proof -
  from assms(2) set_strip_with [of int_space p]
  have "CHR ''-'' \<notin> set (strip_with int_space p)" by blast
  with assms(1) show ?thesis
    by (auto simp: int_parse_def split: list.splits if_splits)
qed

lemma parse_token_bounds:
  assumes "parse_token t = Inr (n, m)"
  shows "- 1 \<le> n \<and> (\<forall>e. m = Some e \<longrightarrow> 0 \<le> e)"
proof -
  have nn: "\<And>q v. q \<in> set (split_on CHR ''-'' t) \<Longrightarrow> int_parse q = Some v \<Longrightarrow> 0 \<le> v"
    using split_on_no_sep int_parse_nonneg by blast
  show ?thesis
  proof (cases "split_on CHR ''-'' t")
    case Nil
    then show ?thesis by simp
  next
    case (Cons p ps)
    show ?thesis
    proof (cases ps)
      case Nil
      with Cons assms obtain v where "int_parse p = Some v" "n = v - 1" "m = Some v"
        by (auto simp: parse_token_def split: option.splits)
      moreover from this nn [of p v] Cons have "0 \<le> v" by simp
      ultimately show ?thesis by simp
    next
      case c2: (Cons q qs)
      show ?thesis
      proof (cases qs)
        case Nil
        have "0 \<le> n + 1"
          using Cons c2 Nil assms nn [of p "n + 1"]
          by (auto simp: parse_token_def split: option.splits if_splits)
        moreover have "\<forall>e. m = Some e \<longrightarrow> 0 \<le> e"
          using Cons c2 Nil assms nn [of q]
          by (auto simp: parse_token_def split: option.splits if_splits)
        ultimately show ?thesis by simp
      next
        case c3: (Cons r rs)
        with Cons c2 assms show ?thesis
          by (simp add: parse_token_def)
      qed
    qed
  qed
qed

lemma parse_token_lone:
  assumes "parse_token t = Inr nm" and "CHR ''-'' \<notin> set t"
  shows "\<exists>N. int_parse t = Some N \<and> nm = (N - 1, Some N)"
proof -
  have "split_on CHR ''-'' t = [t]" using assms(2)
    by (induction t) auto
  with assms(1) show ?thesis
    by (auto simp: parse_token_def split: option.splits)
qed

lemma parse_tokens_success:
  "parse_tokens f ts = Inr rs \<Longrightarrow>
     \<exists>gs. rs = f @ gs \<and> length gs = length ts \<and> (\<forall>i<length ts. parse_token (ts ! i) = Inr (gs ! i))"
proof (induction ts arbitrary: f rs)
  case Nil
  then show ?case by simp
next
  case (Cons t ts)
  from Cons.prems obtain nm where nm: "parse_token t = Inr nm"
    and rest: "parse_tokens (f @ [nm]) ts = Inr rs"
    by (auto split: sum.splits)
  from Cons.IH [OF rest] obtain gs where gs: "rs = (f @ [nm]) @ gs" "length gs = length ts"
    "\<forall>i<length ts. parse_token (ts ! i) = Inr (gs ! i)" by blast
  show ?case
  proof (intro exI conjI)
    show "rs = f @ (nm # gs)" using gs(1) by simp
    show "length (nm # gs) = length (t # ts)" using gs(2) by simp
    show "\<forall>i<length (t # ts). parse_token ((t # ts) ! i) = Inr ((nm # gs) ! i)"
      using nm gs(3) by (auto simp: nth_Cons split: nat.splits)
  qed
qed

text \<open>
  C7, as amended. \<open>parse_range\<close> raises \<open>ValueError\<close>, and nothing else, exactly when
  some comma-separated token is empty, or has a non-empty numeric piece that is not a
  valid integer, or has more than one \<open>-\<close>. Otherwise it returns the ranges of the tokens
  by the rules for \<open>N\<close>, \<open>N-\<close> and \<open>N-M\<close>, in the order given; the examples of the
  specification hold.
\<close>

theorem parse_range_result:
  "(parse_range s = Inl ValueError \<longleftrightarrow> (\<exists>t\<in>set (range_tokens s). token_fails t))
   \<and> (\<forall>e. parse_range s = Inl e \<longrightarrow> e = ValueError)
   \<and> ((\<forall>t\<in>set (range_tokens s). \<not> token_fails t)
        \<longrightarrow> parse_range s = Inr (map token_range (range_tokens s)))
   \<and> parse_range ''1'' = Inr [(0, Some 1)]
   \<and> parse_range ''2-'' = Inr [(1, None)]
   \<and> parse_range ''1-3,5'' = Inr [(0, Some 3), (4, Some 5)]
   \<and> parse_range ''x-2'' = Inl ValueError"
proof -
  have a: "parse_range s = Inl ValueError \<longleftrightarrow> (\<exists>t\<in>set (range_tokens s). token_fails t)"
    by (simp add: parse_range_def parse_tokens_char parse_token_fails_iff)
  have b: "\<forall>e. parse_range s = Inl e \<longrightarrow> e = ValueError"
    by (simp add: parse_range_def parse_tokens_char)
  have c: "(\<forall>t\<in>set (range_tokens s). \<not> token_fails t)
        \<longrightarrow> parse_range s = Inr (map token_range (range_tokens s))"
    by (auto simp: parse_range_def parse_tokens_char parse_token_fails_iff parse_token_range)
  have d: "parse_range ''1'' = Inr [(0, Some 1)]" by code_simp
  have e: "parse_range ''2-'' = Inr [(1, None)]" by code_simp
  have f: "parse_range ''1-3,5'' = Inr [(0, Some 3), (4, Some 5)]" by code_simp
  have g: "parse_range ''x-2'' = Inl ValueError" by code_simp
  from a b c d e f g show ?thesis by blast
qed

theorem parse_range_result_witness:
  "list_all (\<lambda>t. \<not> token_fails t) (range_tokens ''3-4,-2,7'')
   \<and> parse_range ''3-4,-2,7'' = Inr [(2, Some 4), (0, Some 2), (6, Some 7)]"
proof -
  have h: "\<forall>t\<in>set (range_tokens ''3-4,-2,7''). \<not> token_fails t" by code_simp
  have v: "map token_range (range_tokens ''3-4,-2,7'') = [(2, Some 4), (0, Some 2), (6, Some 7)]"
    by code_simp
  from parse_range_result [of "''3-4,-2,7''"] h v show ?thesis
    by (simp add: list_all_iff)
qed

text \<open>
  The claim as stated fails on the empty specification: its only token is empty, so no
  numeric piece is present and there is no \<open>-\<close>, and \<open>parse_range\<close> raises.
\<close>

theorem parse_range_empty_token:
  "parse_range '''' = Inl ValueError \<and> \<not> list_ex claimed_fails (range_tokens '''')"
  by code_simp

text \<open>
  C8, as amended. Every range of a successful parse has a start of at least \<open>-1\<close> and,
  when its end is bounded, an end of at least \<open>0\<close>; there is one range for each token;
  and a token without \<open>-\<close> that spells \<open>N\<close> yields exactly the range \<open>(N - 1, N)\<close>.
  The order of start and end of an \<open>N-M\<close> token is not checked.
\<close>

theorem parse_range_bounds:
  assumes "parse_range s = Inr rs"
  shows "length rs = length (range_tokens s)
    \<and> (\<forall>i<length rs. - 1 \<le> fst (rs ! i) \<and> (\<forall>e. snd (rs ! i) = Some e \<longrightarrow> 0 \<le> e))
    \<and> (\<forall>i<length rs. CHR ''-'' \<notin> set (range_tokens s ! i) \<longrightarrow>
          (\<exists>N. int_parse (range_tokens s ! i) = Some N \<and> rs ! i = (N - 1, Some N)))"
proof -
  from assms parse_tokens_success [of "[]" "range_tokens s" rs]
  have len: "length rs = length (range_tokens s)"
    and tok: "\<forall>i<length (range_tokens s). parse_token (range_tokens s ! i) = Inr (rs ! i)"
    by (auto simp: parse_range_def)
  have b: "\<forall>i<length rs. - 1 \<le> fst (rs ! i) \<and> (\<forall>e. snd (rs ! i) = Some e \<longrightarrow> 0 \<le> e)"
  proof (intro allI impI)
    fix i assume "i < length rs"
    with len tok have "parse_token (range_tokens s ! i) = Inr (fst (rs ! i), snd (rs ! i))" by simp
    then show "- 1 \<le> fst (rs ! i) \<and> (\<forall>e. snd (rs ! i) = Some e \<longrightarrow> 0 \<le> e)"
      by (rule parse_token_bounds)
  qed
  have c: "\<forall>i<length rs. CHR ''-'' \<notin> set (range_tokens s ! i) \<longrightarrow>
          (\<exists>N. int_parse (range_tokens s ! i) = Some N \<and> rs ! i = (N - 1, Some N))"
    using len tok parse_token_lone by auto
  from len b c show ?thesis by blast
qed

theorem parse_range_bounds_witness:
  "parse_range ''0-2,7'' = Inr [(- 1, Some 2), (6, Some 7)]
   \<and> length [(- 1 :: int, Some (2 :: int)), (6, Some 7)] = length (range_tokens ''0-2,7'')
   \<and> - 1 \<le> fst ([(- 1 :: int, Some (2 :: int)), (6, Some 7)] ! 0)"
proof -
  have h: "parse_range ''0-2,7'' = Inr [(- 1, Some 2), (6, Some 7)]" by code_simp
  from parse_range_bounds [OF h] show ?thesis using h by simp
qed

text \<open>
  The claim as stated fails: field number \<open>0\<close> gives a negative start, and \<open>5-2\<close> gives a
  start above the end.
\<close>

theorem parse_range_unordered:
  "parse_range ''0'' = Inr [(- 1, Some 0)] \<and> parse_range ''5-2'' = Inr [(4, Some 2)]"
  by code_simp

section \<open>The row pipeline\<close>

text \<open>
  C1, as amended. For a row whose position is at most the heading-row count, the numeric
  coercion and the user function are skipped; the join stage and the keep stage still
  run on it, as on a data row. The row reaches the writer unchanged when no join and no
  keep is configured.
\<close>

theorem heading_row_stages:
  assumes "i \<le> heading_lines opt"
  shows "process_row F opt i row =
           (case join_stage F (joinchar opt) row (join_fields opt) of
              Inl e \<Rightarrow> Inl e
            | Inr r \<Rightarrow> Inr (Some (if keep opt \<noteq> [] then keep_stage r (keep opt) else r)))
         \<and> (join_fields opt = [] \<and> keep opt = [] \<longrightarrow> process_row F opt i row = Inr (Some row))"
  using assms by (simp add: process_row_def data_stage_def)

theorem heading_row_stages_witness:
  "(1 :: int) \<le> heading_lines heading_example
   \<and> process_row dfloat_ops heading_example 1 [CStr ''a'', CStr ''b'', CStr ''c'']
       = Inr (Some [CStr ''c'', CStr ''a-b''])"
proof -
  have h: "(1 :: int) \<le> heading_lines heading_example"
    by (simp add: heading_example_def)
  have j: "join_stage dfloat_ops (joinchar heading_example) [CStr ''a'', CStr ''b'', CStr ''c'']
             (join_fields heading_example) = Inr [CStr ''a-b'', CStr ''c'']"
    by code_simp
  have k: "keep_stage [CStr ''a-b'', CStr ''c'' :: dfloat cell] (keep heading_example)
             = [CStr ''c'', CStr ''a-b'']"
    by code_simp
  have n: "keep heading_example \<noteq> []"
    by (simp add: heading_example_def)
  from heading_row_stages [OF h, of dfloat_ops "[CStr ''a'', CStr ''b'', CStr ''c'']"] h j k n
  show ?thesis by simp
qed

text \<open>
  The claim as stated fails: a heading row goes through the join stage and the keep
  stage, and does not reach the writer verbatim.
\<close>

theorem heading_row_joined:
  "process_row dfloat_ops heading_example 1 [CStr ''a'', CStr ''b'', CStr ''c'']
     = Inr (Some [CStr ''c'', CStr ''a-b''])"
  by code_simp

text \<open>
  C2. The join stage with \<open>--join=-1-2\<close> on the failing inputs: a cell that numeric
  coercion turned into a non-zero number makes \<open>str.join\<close> raise \<open>TypeError\<close>, and a
  cell that became the number zero is left out of the joined string. On strings the
  stage joins as claimed.
\<close>

theorem join_numeric_cells:
  "cook_join ''-1-2'' = Inr (joinchar join_example, join_fields join_example)
   \<and> process_row dfloat_ops join_example 1 [CStr ''a'', CStr ''5''] = Inl TypeError
   \<and> process_row dfloat_ops join_example 1 [CStr ''a'', CStr ''0''] = Inr (Some [CStr ''a''])
   \<and> process_row dfloat_ops join_example 1 [CStr ''a'', CStr ''b'', CStr ''c'', CStr ''d'']
       = Inr (Some [CStr ''a-b'', CStr ''c'', CStr ''d''])"
  by code_simp


text \<open>
  On a slice of strings and \<open>None\<close> cells the join stage does not raise: the slice is
  replaced by one cell, the non-empty strings of the slice joined with the separator.
\<close>

lemma cell_strs_stringy:
  "\<forall>x\<in>set xs. stringy x \<Longrightarrow>
     cell_strs (filter (py_truthy F) xs) = Inr (filter (\<lambda>s. s \<noteq> []) (map cell_text xs))"
proof (induction xs)
  case Nil
  then show ?case by simp
next
  case (Cons x xs)
  then show ?case
    by (cases x) (auto simp: stringy_def py_truthy_def cell_text_def)
qed

lemma join_range_strings:
  assumes "\<forall>x\<in>set (get_slice row n m). stringy x"
  shows "join_range F sep row (n, m)
    = Inr (set_slice row n m
        [CStr (join_strs sep (filter (\<lambda>s. s \<noteq> []) (map cell_text (get_slice row n m))))])"
  using cell_strs_stringy [OF assms, of F]
  by (simp add: join_range_def str_join_def)

lemma slice_index_beyond: "int len \<le> n \<Longrightarrow> slice_index len n = len"
  by (simp add: slice_index_def)

lemma slice_stop_le: "slice_stop len m \<le> len"
  by (auto simp: slice_stop_def slice_index_def split: option.splits)
lemma join_range_beyond:
  assumes "int (length row) \<le> n"
  shows "join_range F sep row (n, m) = Inr (row @ [CStr []])"
proof -
  have a: "slice_index (length row) n = length row"
    using assms by (rule slice_index_beyond)
  have b: "max (length row) (slice_stop (length row) m) = length row"
    using slice_stop_le [of "length row" m] by simp
  have g: "get_slice row n m = []"
    by (simp add: get_slice_def a)
  have s: "set_slice row n m [CStr []] = row @ [CStr []]"
    by (simp add: set_slice_def a b)
  show ?thesis
    by (simp add: join_range_def g s str_join_def)
qed

lemma join_stage_append:
  "join_stage F sep row (xs @ ys) =
     (case join_stage F sep row xs of Inl e \<Rightarrow> Inl e | Inr r \<Rightarrow> join_stage F sep r ys)"
  by (induction xs arbitrary: row) (auto split: sum.splits)

lemma join_stage_all_beyond:
  "\<forall>nm\<in>set rs. int (length row) + int (length rs) - 1 \<le> fst nm \<Longrightarrow>
     join_stage F sep row rs = Inr (row @ replicate (length rs) (CStr []))"
proof (induction rs arbitrary: row)
  case Nil
  then show ?case by simp
next
  case (Cons nm rs)
  from Cons.prems have "int (length row) \<le> fst nm" by simp
  then have j: "join_range F sep row nm = Inr (row @ [CStr []])"
    using join_range_beyond [of row "fst nm" F sep "snd nm"] by simp
  have "\<forall>x\<in>set rs. int (length (row @ [CStr []])) + int (length rs) - 1 \<le> fst x"
    using Cons.prems by simp
  from Cons.IH [OF this] j show ?case
    by (simp add: replicate_app_Cons_same)
qed

text \<open>
  C10, as amended. A configured join range whose start is at or beyond the length the
  row has when the range is processed, after the ranges before it, appends one
  empty-string cell to the row for that range and does not raise, whatever its end. So
  ranges that all start at or beyond the length of the row plus the number of ranges
  minus one append one empty-string cell each, and the loop body with one such range
  hands the coerced row with one more cell to the keep stage.
\<close>

theorem join_stage_beyond:
  "(join_stage F sep row pre = Inr row1 \<and> int (length row1) \<le> n \<longrightarrow>
      join_stage F sep row (pre @ (n, m) # post) = join_stage F sep (row1 @ [CStr []]) post)
   \<and> ((\<forall>nm\<in>set rs. int (length row) + int (length rs) - 1 \<le> fst nm) \<longrightarrow>
        join_stage F sep row rs = Inr (row @ replicate (length rs) (CStr [])))
   \<and> (data_stage F opt i row = Inr (Some row2) \<and> join_fields opt = [(n, m)]
        \<and> int (length row2) \<le> n \<longrightarrow>
        process_row F opt i row
          = Inr (Some (if keep opt \<noteq> [] then keep_stage (row2 @ [CStr []]) (keep opt)
                       else row2 @ [CStr []])))"
proof -
  have a: "join_stage F sep row pre = Inr row1 \<and> int (length row1) \<le> n \<longrightarrow>
      join_stage F sep row (pre @ (n, m) # post) = join_stage F sep (row1 @ [CStr []]) post"
    by (simp add: join_stage_append join_range_beyond)
  have b: "(\<forall>nm\<in>set rs. int (length row) + int (length rs) - 1 \<le> fst nm) \<longrightarrow>
        join_stage F sep row rs = Inr (row @ replicate (length rs) (CStr []))"
    using join_stage_all_beyond by blast
  have c: "data_stage F opt i row = Inr (Some row2) \<and> join_fields opt = [(n, m)]
        \<and> int (length row2) \<le> n \<longrightarrow>
        process_row F opt i row
          = Inr (Some (if keep opt \<noteq> [] then keep_stage (row2 @ [CStr []]) (keep opt)
                       else row2 @ [CStr []]))"
    by (simp add: process_row_def join_range_beyond)
  from a b c show ?thesis by blast
qed

theorem join_stage_beyond_witness:
  "join_stage dfloat_ops ''-'' [CStr ''a'', CStr ''b''] [(4, Some 6), (3, None)]
     = Inr [CStr ''a'', CStr ''b'', CStr '''', CStr '''']
   \<and> data_stage dfloat_ops beyond_example 1 [CStr ''a'', CStr ''7''] = Inr (Some [CStr ''a'', CInt 7])
   \<and> process_row dfloat_ops beyond_example 1 [CStr ''a'', CStr ''7'']
       = Inr (Some [CStr ''a'', CInt 7, CStr ''''])"
proof -
  have h: "\<forall>nm\<in>set [(4 :: int, Some (6 :: int)), (3, None)].
      int (length [CStr ''a'', CStr ''b'' :: dfloat cell])
        + int (length [(4 :: int, Some (6 :: int)), (3, None)]) - 1 \<le> fst nm"
    by simp
  have d: "data_stage dfloat_ops beyond_example 1 [CStr ''a'', CStr ''7'']
      = Inr (Some [CStr ''a'', CInt 7])"
    by code_simp
  have j: "join_fields beyond_example = [(4, Some 6)]" and k: "keep beyond_example = []"
    by (simp_all add: beyond_example_def)
  have l: "int (length [CStr ''a'', CInt 7 :: dfloat cell]) \<le> 4" by simp
  from join_stage_beyond [where F = dfloat_ops and sep = "''-''" and row = "[CStr ''a'', CStr ''b'']"
      and rs = "[(4, Some 6), (3, None)]"] h
  have s: "join_stage dfloat_ops ''-'' [CStr ''a'', CStr ''b''] [(4, Some 6), (3, None)]
     = Inr [CStr ''a'', CStr ''b'', CStr '''', CStr '''']"
    by (simp add: numeral_2_eq_2)
  from join_stage_beyond [where F = dfloat_ops and opt = beyond_example and i = 1
      and row = "[CStr ''a'', CStr ''7'']" and ?row2.0 = "[CStr ''a'', CInt 7]" and n = 4
      and m = "Some 6"] d j k l
  have p: "process_row dfloat_ops beyond_example 1 [CStr ''a'', CStr ''7'']
       = Inr (Some [CStr ''a'', CInt 7, CStr ''''])"
    by simp
  from s d p show ?thesis by simp
qed

text \<open>
  The claim as stated fails: with \<open>--join=-2,3\<close> both ranges start at or beyond the
  length of the row \<open>a\<close>, and the row grows by one cell, not by one for each range: the
  second range joins the empty cell that the first one appended.
\<close>

theorem join_stage_two_ranges:
  "cook_join ''-2,3'' = Inr (''-'', [(2, Some 3), (1, Some 2)])
   \<and> join_stage dfloat_ops ''-'' [CStr ''a''] [(2, Some 3), (1, Some 2)]
       = Inr [CStr ''a'', CStr '''']"
  by code_simp

section \<open>The table writer\<close>

text \<open>
  With a global \<open>opt\<close>, the fixed-width loop writes no divider in the style \<open>nosep\<close>,
  and otherwise one divider after each of the first \<open>h\<close> rows.
\<close>

lemma table_rows_nosep:
  "style w = nosep \<Longrightarrow> dividers (fst (table_rows F w g wid r rows)) = 0"
proof (induction rows arbitrary: r)
  case Nil
  then show ?case by (simp add: dividers_def)
next
  case (Cons row rows)
  from Cons.IH [OF Cons.prems, of "r + 1"] Cons.prems show ?case
    by (auto simp: dividers_def is_divider_def Let_def
             split: sum.splits option.splits prod.splits)
qed

lemma table_rows_dividers:
  "style w \<noteq> nosep \<Longrightarrow> snd (table_rows F w (Some h) wid r rows) = None \<Longrightarrow> 0 \<le> r \<Longrightarrow>
     dividers (fst (table_rows F w (Some h) wid r rows)) = min (nat (h - r)) (length rows)"
proof (induction rows arbitrary: r)
  case Nil
  then show ?case by (simp add: dividers_def)
next
  case (Cons row rows)
  from Cons.prems(2) have rest: "snd (table_rows F w (Some h) wid (r + 1) rows) = None"
    by (auto simp: Let_def split: sum.splits prod.splits if_splits)
  from Cons.prems(3) have "0 \<le> r + 1" by simp
  from Cons.IH [OF Cons.prems(1) rest this]
  have ih: "dividers (fst (table_rows F w (Some h) wid (r + 1) rows))
              = min (nat (h - (r + 1))) (length rows)" .
  show ?case
  proof (cases "h > 0 \<and> r < h")
    case True
    then have "nat (h - r) = Suc (nat (h - (r + 1)))" by arith
    with True ih Cons.prems show ?thesis
      by (auto simp: dividers_def is_divider_def Let_def
               split: sum.splits prod.splits)
  next
    case False
    with Cons.prems(3) have "nat (h - r) = 0" "nat (h - (r + 1)) = 0" by auto
    with False ih Cons.prems show ?thesis
      by (auto simp: dividers_def is_divider_def Let_def
               split: sum.splits prod.splits)
  qed
qed

text \<open>
  C3. The fixed-width table of three one-cell rows with two heading rows, in the style
  \<open>ascii\<close>. As the module stands, the lookup of \<open>opt\<close> raises \<open>NameError\<close> after the
  first line and no divider is written. With a global \<open>opt\<close>, a divider follows each of
  the two heading rows, where the claim has one divider, after the second row.
\<close>

theorem heading_dividers:
  "snd (writerows dfloat_ops None heading_table)
     = ([RowLine (glyphs ''name'' @ newline)], Some NameError)
   \<and> snd (writerows dfloat_ops (Some 2) heading_table)
       = ([RowLine (glyphs ''name'' @ newline), Divider (glyphs ''----'' @ newline),
           RowLine (glyphs ''unit'' @ newline), Divider (glyphs ''----'' @ newline),
           RowLine (glyphs ''x   '' @ newline)], None)"
  by code_simp

lemma decimal_cell:
  "numeric dfloat_ops (CStr ''3.25'') = Inr (CFloat (DFin False 325 2))"
  by code_simp

lemma decimal_cell_width: "width dfloat_ops (CFloat (DFin False 325 2)) = 4"
  by (simp add: width_def py_str_def dfloat_ops_def dfloat_str_def zero_pad_def str_nat_eval)

lemma decimal_cell_text: "tabfmt dfloat_ops (CFloat (DFin False 325 2)) 4 = ''3.250000''"
  by (simp add: tabfmt_def rjust_def dfloat_ops_def dfloat_fmt_f_def round6_def zero_pad_def
        str_nat_eval)

lemma decimal_widths:
  "column_widths dfloat_ops (data decimal_table) [0 ..< length (hd (data decimal_table))] = Inr [4]"
  by (simp add: decimal_table_def writerow_def TableWriter_def item_def reduce_max_def
        decimal_cell_width)
     (simp add: width_def)

text \<open>
  C4. The fixed-width table of the rows \<open>3.25\<close> and \<open>a\<close>. The column is 4 wide, the width
  of \<open>str(3.25)\<close>, and \<open>%*f\<close> renders the decimal with six places, in 8 characters:
  the line of the decimal is wider than the column, and wider than the line of \<open>a\<close>.
\<close>

theorem decimal_width:
  "snd (writerows dfloat_ops None decimal_table)
     = ([RowLine (glyphs ''3.250000'' @ newline)], Some NameError)
   \<and> snd (writerows dfloat_ops (Some 0) decimal_table)
       = ([RowLine (glyphs ''3.250000'' @ newline), RowLine (glyphs ''a   '' @ newline)], None)"
proof -
  have d: "data decimal_table = [[CFloat (DFin False 325 2)], [CStr ''a'']]"
    by (simp add: decimal_table_def writerow_def TableWriter_def)
  have m: "\<not> markdown decimal_table"
    by (simp add: decimal_table_def writerow_def TableWriter_def)
  have a: "tabfmt dfloat_ops (CStr ''a'') 4 = ''a   ''"
    by code_simp
  have c: "col_sep decimal_table = glyphs '' | ''"
    by (simp add: decimal_table_def writerow_def TableWriter_def)
  have r1: "table_rows dfloat_ops decimal_table None [4] 0 (data decimal_table)
      = ([RowLine (glyphs ''3.250000'' @ newline)], Some NameError)"
    by (simp add: d item_def decimal_cell_text)
  have r2: "table_rows dfloat_ops decimal_table (Some 0) [4] 0 (data decimal_table)
      = ([RowLine (glyphs ''3.250000'' @ newline), RowLine (glyphs ''a   '' @ newline)], None)"
    by (simp add: d item_def decimal_cell_text a)
  from decimal_widths m d r1 r2 show ?thesis
    by (simp add: writerows_def)
qed

text \<open>
  When all rows have the same number of cells and no cell is a float, every line of a
  row that the fixed-width loop writes has the same length: the widths of the columns,
  the separators between them and the newline.
\<close>

lemma length_tabfmt:
  "\<not> is_float v \<Longrightarrow> length (tabfmt F v w) = max w (width F v)"
  by (cases v) (auto simp: tabfmt_def width_def rjust_def ljust_def py_str_def is_float_def)

lemma column_cells_rect:
  "\<forall>row\<in>set d. c < length row \<Longrightarrow>
     column_cells F d c = Inr (map (\<lambda>row. width F (row ! c)) d)"
  by (induction d) (auto simp: item_def)

lemma foldl_max_ge: "(v :: nat) \<le> foldl max v vs"
  by (induction vs arbitrary: v) (auto intro: order_trans [OF max.cobounded1])

lemma foldl_max_mem: "(x :: nat) \<in> set vs \<Longrightarrow> x \<le> foldl max v vs"
proof (induction vs arbitrary: v)
  case Nil
  then show ?case by simp
next
  case (Cons a vs)
  show ?case
  proof (cases "x = a")
    case True
    have "x \<le> max v a" using True by simp
    also have "\<dots> \<le> foldl max (max v a) vs" by (rule foldl_max_ge)
    finally show ?thesis by simp
  next
    case False
    with Cons.prems have "x \<in> set vs" by simp
    from Cons.IH [OF this] show ?thesis by simp
  qed
qed

lemma column_width_ge:
  "row \<in> set d \<Longrightarrow> width F (row ! c) \<le> column_width F d c"
proof -
  assume r: "row \<in> set d"
  then obtain v vs where vs: "map (\<lambda>row. width F (row ! c)) d = v # vs"
    by (cases d) auto
  from r have "width F (row ! c) \<in> set (v # vs)" unfolding vs [symmetric] by simp
  then have "width F (row ! c) \<le> foldl max v vs"
    using foldl_max_ge [of v vs] foldl_max_mem [of "width F (row ! c)" vs v] by auto
  with vs show ?thesis by (simp add: column_width_def)
qed

lemma column_widths_rect:
  assumes "d \<noteq> []" and "\<forall>row\<in>set d. \<forall>c\<in>set cs. c < length row"
  shows "column_widths F d cs = Inr (map (column_width F d) cs)"
  using assms(2)
proof (induction cs)
  case Nil
  then show ?case by simp
next
  case (Cons c cs)
  then have "column_cells F d c = Inr (map (\<lambda>row. width F (row ! c)) d)"
    by (simp add: column_cells_rect)
  moreover from assms(1) obtain v vs where "map (\<lambda>row. width F (row ! c)) d = v # vs"
    by (cases d) auto
  ultimately show ?case using Cons
    by (simp add: reduce_max_def column_width_def)
qed

lemma format_cells_fit:
  assumes "c + length row \<le> length wid"
    and "\<forall>j<length row. \<not> is_float (row ! j) \<and> width F (row ! j) \<le> wid ! (c + j)"
  shows "\<exists>ts. format_cells F wid c row = Inr ts \<and> length ts = length row
          \<and> sum_list (map length ts) = sum_list (take (length row) (drop c wid))"
  using assms
proof (induction row arbitrary: c)
  case Nil
  then show ?case by simp
next
  case (Cons v vs)
  from Cons.prems(1) have c: "c < length wid" and c1: "Suc c + length vs \<le> length wid" by simp_all
  have "\<forall>j<length vs. \<not> is_float (vs ! j) \<and> width F (vs ! j) \<le> wid ! (Suc c + j)"
    using Cons.prems(2) by force
  from Cons.IH [OF c1 this] obtain ts where ts: "format_cells F wid (Suc c) vs = Inr ts"
    "length ts = length vs" "sum_list (map length ts) = sum_list (take (length vs) (drop (Suc c) wid))"
    by blast
  from Cons.prems(2) have v: "\<not> is_float v" "width F v \<le> wid ! c" by force+
  then have l: "length (tabfmt F v (wid ! c)) = wid ! c"
    by (simp add: length_tabfmt)
  from c have d: "drop c wid = wid ! c # drop (Suc c) wid"
    by (simp add: Cons_nth_drop_Suc)
  show ?case using c ts l d
    by (simp add: item_def glyphs_def)
qed

lemma length_join_text:
  "length (join_text sep ts) = sum_list (map length ts) + (length ts - 1) * length sep"
  by (induction sep ts rule: join_text.induct) simp_all

lemma table_rows_width:
  assumes "\<forall>row\<in>set rows. length row = length wid
             \<and> (\<forall>j<length row. \<not> is_float (row ! j) \<and> width F (row ! j) \<le> wid ! j)"
    and "RowLine t \<in> set (fst (table_rows F w g wid r rows))"
  shows "length t = sum_list wid + (length wid - 1) * length (col_sep w) + 1"
  using assms
proof (induction rows arbitrary: r)
  case Nil
  then show ?case by simp
next
  case (Cons row rows)
  from Cons.prems(1) have len: "length row = length wid"
    and fit: "\<forall>j<length row. \<not> is_float (row ! j) \<and> width F (row ! j) \<le> wid ! (0 + j)"
    by simp_all
  from len have "0 + length row \<le> length wid" by simp
  from format_cells_fit [OF this fit] len obtain ts where ts: "format_cells F wid 0 row = Inr ts"
    "length ts = length wid" "sum_list (map length ts) = sum_list wid"
    by auto
  have l: "length (join_text (col_sep w) ts @ newline)
             = sum_list wid + (length wid - 1) * length (col_sep w) + 1"
    using ts by (simp add: length_join_text newline_def)
  have ih: "RowLine t \<in> set (fst (table_rows F w g wid (r + 1) rows)) \<Longrightarrow> ?case"
    using Cons.IH [of "r + 1"] Cons.prems(1) by simp
  from Cons.prems(2) ts have
    "t = join_text (col_sep w) ts @ newline
      \<or> RowLine t \<in> set (fst (table_rows F w g wid (r + 1) rows))"
    by (auto simp: Let_def split: option.splits sum.splits prod.splits if_splits)
  with l ih show ?case by auto
qed

lemma table_uniform_width:
  assumes "data w \<noteq> []"
    and "\<forall>row\<in>set (data w). length row = n \<and> (\<forall>x\<in>set row. \<not> is_float x)"
    and "\<not> markdown w"
    and "RowLine t \<in> set (fst (snd (writerows F g w)))"
  shows "length t = sum_list (map (column_width F (data w)) [0..<n])
                    + (n - 1) * length (col_sep w) + 1"
proof -
  let ?wid = "map (column_width F (data w)) [0..<n]"
  from assms(1,2) have n: "length (hd (data w)) = n" by (cases "data w") auto
  have cw: "column_widths F (data w) [0..<n] = Inr ?wid"
    using assms(1,2) by (intro column_widths_rect) auto
  have fit: "\<forall>row\<in>set (data w). length row = length ?wid
             \<and> (\<forall>j<length row. \<not> is_float (row ! j) \<and> width F (row ! j) \<le> ?wid ! j)"
    using assms(2) by (auto simp: column_width_ge)
  from assms(1,3,4) n cw have "RowLine t \<in> set (fst (table_rows F w g ?wid 0 (data w)))"
    by (auto simp: writerows_def split: prod.splits)
  from table_rows_width [OF fit this] show ?thesis by simp
qed

section \<open>Numeric coercion\<close>

text \<open>\<open>int(str(n))\<close> is \<open>n\<close>, and \<open>str(n)\<close> has neither a dollar sign nor a comma.\<close>

lemma is_digit_digit_char: "d < 10 \<Longrightarrow> is_digit (digit_char d)"
proof -
  assume "d < 10"
  then have "d \<in> {0, 1, 2, 3, 4, 5, 6, 7, 8, 9}" by auto
  then show ?thesis by (auto simp: is_digit_def digit_char_def)
qed

lemma digit_val_digit_char: "d < 10 \<Longrightarrow> digit_val (digit_char d) = d"
proof -
  assume "d < 10"
  then have "d \<in> {0, 1, 2, 3, 4, 5, 6, 7, 8, 9}" by auto
  then show ?thesis by (auto simp: digit_val_def digit_char_def)
qed

lemma str_nat_digits: "c \<in> set (str_nat n) \<Longrightarrow> is_digit c"
proof (induction n arbitrary: c rule: str_nat.induct)
  case (1 n)
  show ?case
  proof (cases "n < 10")
    case True
    with "1.prems" show ?thesis
      by (subst (asm) str_nat.simps) (simp add: is_digit_digit_char)
  next
    case False
    with "1.prems" have "c \<in> set (str_nat (n div 10)) \<or> c = digit_char (n mod 10)"
      by (subst (asm) str_nat.simps) auto
    with False "1.IH" show ?thesis
      by (auto simp: is_digit_digit_char)
  qed
qed

lemma str_nat_not_Nil [simp]: "str_nat n \<noteq> []"
  by (subst str_nat.simps) simp

lemma int_digits_snoc:
  "\<forall>c\<in>set ds. is_digit c \<Longrightarrow> is_digit d \<Longrightarrow>
     int_digits acc (ds @ [d]) = map_option (\<lambda>v. 10 * v + digit_val d) (int_digits acc ds)"
  by (induction ds arbitrary: acc) auto

lemma int_digits_str_nat: "int_digits 0 (str_nat n) = Some n"
proof (induction n rule: str_nat.induct)
  case (1 n)
  show ?case
  proof (cases "n < 10")
    case True
    then show ?thesis
      by (subst str_nat.simps) (simp add: is_digit_digit_char digit_val_digit_char)
  next
    case False
    have "int_digits 0 (str_nat (n div 10) @ [digit_char (n mod 10)])
            = map_option (\<lambda>v. 10 * v + digit_val (digit_char (n mod 10)))
                (int_digits 0 (str_nat (n div 10)))"
      by (rule int_digits_snoc) (auto simp: str_nat_digits is_digit_digit_char)
    with False "1.IH" show ?thesis
      by (subst str_nat.simps) (simp add: digit_val_digit_char)
  qed
qed

lemma all_digits_int_body:
  "ds \<noteq> [] \<Longrightarrow> \<forall>c\<in>set ds. is_digit c \<Longrightarrow> int_body ds = int_digits 0 ds"
  by (cases ds) (auto simp: int_body_def)

lemma int_body_str_nat: "int_body (str_nat n) = Some n"
  by (simp add: all_digits_int_body str_nat_digits int_digits_str_nat)

lemma strip_with_id:
  assumes "s \<noteq> []" and "\<not> sp (hd s)" and "\<not> sp (last s)"
  shows "strip_with sp s = s"
proof -
  from assms(1,2) have a: "dropWhile sp s = s" by (cases s) auto
  from assms(1,3) have "dropWhile sp (rev s) = rev s"
    by (cases "rev s") (auto simp: last_rev [symmetric] simp del: last_rev)
  with a show ?thesis by (simp add: strip_with_def)
qed

lemma digit_not_space: "is_digit c \<Longrightarrow> \<not> int_space c"
  by (auto simp: is_digit_def int_space_def)

lemma str_nat_hd_digit: "is_digit (hd (str_nat n))"
  by (rule str_nat_digits [of _ n]) simp

lemma str_nat_last_digit: "is_digit (last (str_nat n))"
  by (rule str_nat_digits [of _ n]) simp

lemma int_parse_str_int: "int_parse (str_int n) = Some n"
proof (cases "n < 0")
  case True
  have "strip_with int_space (CHR ''-'' # str_nat (nat (- n))) = CHR ''-'' # str_nat (nat (- n))"
  proof (rule strip_with_id)
    show "CHR ''-'' # str_nat (nat (- n)) \<noteq> []" by simp
    show "\<not> int_space (hd (CHR ''-'' # str_nat (nat (- n))))" by (simp add: int_space_def)
    show "\<not> int_space (last (CHR ''-'' # str_nat (nat (- n))))"
      using str_nat_last_digit [of "nat (- n)"] by (simp add: digit_not_space)
  qed
  with True show ?thesis
    by (simp add: int_parse_def str_int_def int_body_str_nat)
next
  case False
  have s: "strip_with int_space (str_nat (nat n)) = str_nat (nat n)"
    by (rule strip_with_id) (simp_all add: digit_not_space str_nat_hd_digit str_nat_last_digit)
  obtain c cs where c: "str_nat (nat n) = c # cs" by (cases "str_nat (nat n)") auto
  then have "is_digit c" using str_nat_digits [of c "nat n"] by simp
  then have "c \<noteq> CHR ''-''" "c \<noteq> CHR ''+''" by (auto simp: is_digit_def)
  with False s c int_body_str_nat [of "nat n"] show ?thesis
    by (simp add: int_parse_def str_int_def)
qed

lemma numeric_text_id:
  assumes "CHR ''$'' \<notin> set y" and "CHR '','' \<notin> set y"
  shows "numeric_text y = y"
  using assms by (cases y) (auto simp: numeric_text_def)

lemma str_int_plain: "CHR ''$'' \<notin> set (str_int n) \<and> CHR '','' \<notin> set (str_int n)"
  using str_nat_digits by (auto simp: str_int_def is_digit_def)

lemma remove_commas:
  "(if CHR '','' \<in> set y then filter (\<lambda>c. c \<noteq> CHR '','') y else y) = filter (\<lambda>c. c \<noteq> CHR '','') y"
proof (cases "CHR '','' \<in> set y")
  case True
  then show ?thesis by simp
next
  case False
  then have "filter (\<lambda>c. c \<noteq> CHR '','') y = y" by (auto simp: filter_id_conv)
  with False show ?thesis by simp
qed

lemma numeric_text_cleaned: "\<not> other_currency s \<Longrightarrow> numeric_text s = cleaned s"
  by (cases s)
     (auto simp: numeric_text_def cleaned_def other_currency_def Let_def remove_commas
        currency_symbols_def)

lemma numeric_int: "numeric F (CInt n) = Inr (CInt n)"
  using str_int_plain [of n]
  by (simp add: numeric_def py_str_def numeric_text_id int_parse_str_int Let_def)

lemma numeric_cases:
  "numeric F (CStr s) =
     (case int_parse (numeric_text s) of
        Some n \<Rightarrow> Inr (CInt n)
      | None \<Rightarrow>
          (case fl_parse F (numeric_text s) of
             None \<Rightarrow> Inr (CStr s)
           | Some f \<Rightarrow>
               if fl_is_integer F f then
                 (case fl_to_int F f of Inr n \<Rightarrow> Inr (CInt n)
                  | Inl e \<Rightarrow> if e = ValueError then Inr (CStr s) else Inl e)
               else Inr (CFloat f)))"
  by (simp add: numeric_def py_str_def Let_def)

text \<open>The reference float meets \<open>float_ops_ok\<close>.\<close>

lemma dnorm_normal: "dnorm m k = (m', k') \<Longrightarrow> k' = 0 \<or> m' mod 10 \<noteq> 0"
  by (induction m k rule: dnorm.induct) (auto split: if_splits)

lemma dnorm_id: "k = 0 \<or> m mod 10 \<noteq> 0 \<Longrightarrow> dnorm m k = (m, k)"
  by (cases k) auto

lemma dec_number_normal:
  assumes "dec_number s = Some (m, k)"
  shows "k = 0 \<or> m mod 10 \<noteq> 0"
proof -
  from assms consider (norm) a b where "dnorm a b = (m, k)" | (whole) "k = 0"
    by (auto simp: dec_number_def split: option.splits list.splits if_splits)
  then show ?thesis
  proof cases
    case norm
    then show ?thesis by (rule dnorm_normal)
  next
    case whole
    then show ?thesis by simp
  qed
qed

lemma dfloat_parse_normal:
  assumes "dfloat_parse s = Some f"
  shows "dnormal f"
proof (cases f)
  case (DFin neg m k)
  with assms obtain b where "dec_number b = Some (m, k)"
    by (auto simp: dfloat_parse_def Let_def split: list.splits if_splits)
  then have "k = 0 \<or> m mod 10 \<noteq> 0" by (rule dec_number_normal)
  with DFin show ?thesis by (simp add: dnormal_def)
qed (simp_all add: dnormal_def)

lemma is_digit_zero: "is_digit CHR ''0''" and digit_val_zero: "digit_val CHR ''0'' = 0"
  by (simp_all add: is_digit_def digit_val_def)

lemma int_digits_zeros: "int_digits 0 (replicate j CHR ''0'' @ ds) = int_digits 0 ds"
  by (induction j) (simp_all add: is_digit_zero digit_val_zero)

lemma length_str_nat: "n < 10 ^ k \<Longrightarrow> 0 < k \<Longrightarrow> length (str_nat n) \<le> k"
proof (induction n arbitrary: k rule: str_nat.induct)
  case (1 n)
  show ?case
  proof (cases "n < 10")
    case True
    with "1.prems" show ?thesis by (subst str_nat.simps) simp
  next
    case False
    from "1.prems" obtain j where j: "k = Suc j" by (cases k) auto
    with False "1.prems" have "0 < j" by (cases j) auto
    moreover from j "1.prems" have "n div 10 < 10 ^ j"
      by (simp add: less_mult_imp_div_less mult.commute)
    ultimately have "length (str_nat (n div 10)) \<le> j" using "1.IH" False by simp
    with False j show ?thesis by (subst str_nat.simps) simp
  qed
qed

lemma zero_pad_digits: "\<forall>c\<in>set ds. is_digit c \<Longrightarrow> \<forall>c\<in>set (zero_pad k ds). is_digit c"
  by (auto simp: zero_pad_def is_digit_zero)

lemma length_zero_pad: "length s \<le> k \<Longrightarrow> length (zero_pad k s) = k"
  by (simp add: zero_pad_def)

lemma digit_part_digits:
  assumes "ds \<noteq> []" and "\<forall>c\<in>set ds. is_digit c"
  shows "digit_part ds = map_option (\<lambda>v. (v, length ds)) (int_digits 0 ds)"
proof -
  from assms(2) have "filter is_digit ds = ds" by (simp add: filter_id_conv)
  with assms show ?thesis by (simp add: digit_part_def all_digits_int_body)
qed

lemma digit_part_str_nat: "digit_part (str_nat n) = Some (n, length (str_nat n))"
  by (simp add: digit_part_digits str_nat_digits int_digits_str_nat)

lemma digit_part_zero_pad:
  assumes "n < 10 ^ k" and "0 < k"
  shows "digit_part (zero_pad k (str_nat n)) = Some (n, k)"
proof -
  have d: "\<forall>c\<in>set (zero_pad k (str_nat n)). is_digit c"
    by (rule zero_pad_digits) (simp add: str_nat_digits)
  have ne: "zero_pad k (str_nat n) \<noteq> []" by (simp add: zero_pad_def)
  have l: "length (zero_pad k (str_nat n)) = k"
    using assms by (simp add: length_zero_pad length_str_nat)
  have v: "int_digits 0 (zero_pad k (str_nat n)) = Some n"
    by (simp add: zero_pad_def int_digits_zeros int_digits_str_nat)
  from d ne l v show ?thesis by (simp add: digit_part_digits)
qed

lemma frac_digits_digits: "c \<in> set (frac_digits m k) \<Longrightarrow> is_digit c"
proof (cases "k = 0")
  case True
  assume "c \<in> set (frac_digits m k)"
  with True show ?thesis by (simp add: frac_digits_def is_digit_zero)
next
  case False
  assume "c \<in> set (frac_digits m k)"
  with False have "c \<in> set (zero_pad k (str_nat (m mod 10 ^ k)))" by (simp add: frac_digits_def)
  moreover have "\<forall>c\<in>set (zero_pad k (str_nat (m mod 10 ^ k))). is_digit c"
    by (rule zero_pad_digits) (simp add: str_nat_digits)
  ultimately show ?thesis by blast
qed

lemma frac_digits_not_Nil: "frac_digits m k \<noteq> []"
  by (simp add: frac_digits_def zero_pad_def)

lemma digit_part_frac:
  "digit_part (frac_digits m k) = Some (if k = 0 then (0, 1) else (m mod 10 ^ k, k))"
proof (cases "k = 0")
  case True
  then show ?thesis
    by (simp add: frac_digits_def digit_part_def int_body_def is_digit_zero digit_val_zero)
next
  case False
  then show ?thesis by (simp add: frac_digits_def digit_part_zero_pad)
qed

lemma digit_not_point: "is_digit c \<Longrightarrow> c \<noteq> CHR ''.''"
  by (auto simp: is_digit_def)

lemma dec_mantissa_printed:
  "dec_mantissa (str_nat i @ CHR ''.'' # frac_digits m k)
     = Some (if k = 0 then (i * 10, 1) else (i * 10 ^ k + m mod 10 ^ k, k))"
proof -
  have a: "takeWhile (\<lambda>c. c \<noteq> CHR ''.'') (str_nat i @ CHR ''.'' # frac_digits m k) = str_nat i"
    by (simp add: takeWhile_append2 str_nat_digits digit_not_point)
  have b: "dropWhile (\<lambda>c. c \<noteq> CHR ''.'') (str_nat i @ CHR ''.'' # frac_digits m k)
             = CHR ''.'' # frac_digits m k"
    by (simp add: dropWhile_append2 str_nat_digits digit_not_point)
  show ?thesis
    by (simp add: dec_mantissa_def a b Let_def digit_part_str_nat digit_part_frac)
qed

lemma digit_not_e: "is_digit c \<Longrightarrow> not_e c"
  by (auto simp: is_digit_def not_e_def)

lemma printed_not_e:
  assumes "c \<in> set (str_nat i @ CHR ''.'' # frac_digits m k)"
  shows "not_e c"
proof -
  from assms have "is_digit c \<or> c = CHR ''.''"
    using str_nat_digits frac_digits_digits by auto
  then show ?thesis using digit_not_e by (auto simp: not_e_def)
qed

lemma printed_take: "takeWhile not_e (str_nat i @ CHR ''.'' # frac_digits m k)
    = str_nat i @ CHR ''.'' # frac_digits m k"
  using printed_not_e by (simp add: takeWhile_eq_all_conv del: set_append)

lemma printed_drop: "dropWhile not_e (str_nat i @ CHR ''.'' # frac_digits m k) = []"
  using printed_not_e by (simp add: dropWhile_eq_Nil_conv del: set_append)

lemma dec_number_printed:
  assumes "k = 0 \<or> m mod 10 \<noteq> 0"
  shows "dec_number (str_nat (m div 10 ^ k) @ CHR ''.'' # frac_digits m k) = Some (m, k)"
proof -
  note a = printed_take and b = printed_drop
  show ?thesis
  proof (cases "k = 0")
    case True
    have "dec_number (str_nat m @ CHR ''.'' # frac_digits m 0) = Some (m, 0)"
      by (simp add: dec_number_def a b dec_mantissa_printed)
    with True show ?thesis by simp
  next
    case False
    with assms have n: "dnorm m k = (m, k)" by (simp add: dnorm_id)
    have "m div 10 ^ k * 10 ^ k + m mod 10 ^ k = m" by (rule div_mult_mod_eq)
    with False n show ?thesis
      by (simp add: dec_number_def a b dec_mantissa_printed)
  qed
qed

lemma to_lower_digit: "is_digit c \<Longrightarrow> to_lower c = c"
  by (auto simp: is_digit_def to_lower_def)

lemma printed_not_name:
  assumes "is_digit c"
  shows "map to_lower (c # cs) \<noteq> ''inf'' \<and> map to_lower (c # cs) \<noteq> ''infinity''
         \<and> map to_lower (c # cs) \<noteq> ''nan''"
  using assms by (auto simp: to_lower_digit is_digit_def)

lemma dfloat_str_DFin:
  "dfloat_str (DFin neg m k)
     = (if neg then ''-'' else []) @ str_nat (m div 10 ^ k) @ CHR ''.'' # frac_digits m k"
  by (simp add: dfloat_str_def frac_digits_def)

lemma printed_strip:
  "strip_with int_space ((if neg then ''-'' else []) @ str_nat i @ CHR ''.'' # frac_digits m k)
     = (if neg then ''-'' else []) @ str_nat i @ CHR ''.'' # frac_digits m k"
proof (rule strip_with_id)
  let ?s = "(if neg then ''-'' else []) @ str_nat i @ CHR ''.'' # frac_digits m k"
  show "?s \<noteq> []" by simp
  have m: "\<not> int_space CHR ''-''" by (simp add: int_space_def)
  have "hd ?s = CHR ''-'' \<or> is_digit (hd ?s)"
    using str_nat_hd_digit [of i] by (cases "str_nat i") auto
  then show "\<not> int_space (hd ?s)"
    using m digit_not_space by metis
  have "last ?s = last (frac_digits m k)" by (simp add: frac_digits_not_Nil)
  moreover have "is_digit (last (frac_digits m k))"
    by (rule frac_digits_digits [of _ m k]) (simp add: frac_digits_not_Nil)
  ultimately show "\<not> int_space (last ?s)" by (simp add: digit_not_space)
qed

lemma dfloat_round_trip:
  assumes "dnormal f"
  shows "dfloat_parse (dfloat_str f) = Some f"
proof (cases f)
  case (DFin neg m k)
  with assms have nm: "k = 0 \<or> m mod 10 \<noteq> 0" by (simp add: dnormal_def)
  obtain c cs where c: "str_nat (m div 10 ^ k) = c # cs"
    by (cases "str_nat (m div 10 ^ k)") auto
  then have dc: "is_digit c" using str_nat_digits [of c "m div 10 ^ k"] by simp
  then have sg: "c \<noteq> CHR ''-''" "c \<noteq> CHR ''+''" by (auto simp: is_digit_def)
  let ?body = "str_nat (m div 10 ^ k) @ CHR ''.'' # frac_digits m k"
  have nn: "map to_lower ?body \<noteq> ''inf'' \<and> map to_lower ?body \<noteq> ''infinity''
         \<and> map to_lower ?body \<noteq> ''nan''"
    using printed_not_name [OF dc, of "cs @ CHR ''.'' # frac_digits m k"] c by simp
  have dn: "dec_number ?body = Some (m, k)" using nm by (rule dec_number_printed)
  show ?thesis
  proof (cases neg)
    case True
    have "strip_with int_space (CHR ''-'' # ?body) = CHR ''-'' # ?body"
      using printed_strip [of True "m div 10 ^ k" m k] by simp
    with True DFin nn dn show ?thesis
      by (simp add: dfloat_parse_def dfloat_str_DFin Let_def)
  next
    case False
    have "strip_with int_space ?body = ?body"
      using printed_strip [of False "m div 10 ^ k" m k] by simp
    then have st: "strip_with int_space ?body = c # (cs @ CHR ''.'' # frac_digits m k)"
      using c by simp
    from nn c have nn': "map to_lower (c # cs @ CHR ''.'' # frac_digits m k) \<noteq> ''inf''
       \<and> map to_lower (c # cs @ CHR ''.'' # frac_digits m k) \<noteq> ''infinity''
       \<and> map to_lower (c # cs @ CHR ''.'' # frac_digits m k) \<noteq> ''nan''" by simp
    from dn c have dn': "dec_number (c # cs @ CHR ''.'' # frac_digits m k) = Some (m, k)" by simp
    from False DFin sg st nn' dn' show ?thesis
      by (simp add: dfloat_parse_def dfloat_str_DFin Let_def)
  qed
next
  case (DInf neg)
  have "dfloat_parse ''inf'' = Some (DInf False)" "dfloat_parse ''-inf'' = Some (DInf True)"
    by code_simp+
  with DInf show ?thesis by (simp add: dfloat_str_def)
next
  case DNaN
  have "dfloat_parse ''nan'' = Some DNaN" by code_simp
  with DNaN show ?thesis by (simp add: dfloat_str_def)
qed

lemma int_digits_chars: "int_digits acc s = Some v \<Longrightarrow> c \<in> set s \<Longrightarrow> is_digit c \<or> c = CHR ''_''"
  by (induction acc s rule: int_digits.induct) (auto split: if_splits list.splits)

lemma int_body_point: "CHR ''.'' \<in> set s \<Longrightarrow> int_body s = None"
proof (rule ccontr)
  assume p: "CHR ''.'' \<in> set s" and "int_body s \<noteq> None"
  then obtain v where "int_digits 0 s = Some v"
    by (auto simp: int_body_def split: list.splits if_splits)
  from int_digits_chars [OF this p] show False by (simp add: is_digit_def)
qed

lemma dfloat_str_not_int: "int_parse (dfloat_str f) = None"
proof (cases f)
  case (DFin neg m k)
  let ?body = "str_nat (m div 10 ^ k) @ CHR ''.'' # frac_digits m k"
  obtain c cs where c: "?body = c # cs" by (cases ?body) auto
  have "c = hd (str_nat (m div 10 ^ k))" using c by (cases "str_nat (m div 10 ^ k)") auto
  then have "is_digit c" by (simp add: str_nat_hd_digit)
  then have sg: "c \<noteq> CHR ''-''" "c \<noteq> CHR ''+''" by (auto simp: is_digit_def)
  have p: "int_body ?body = None" by (rule int_body_point) simp
  show ?thesis
  proof (cases neg)
    case True
    have "strip_with int_space (CHR ''-'' # ?body) = CHR ''-'' # ?body"
      using printed_strip [of True "m div 10 ^ k" m k] by simp
    with True DFin p show ?thesis by (simp add: int_parse_def dfloat_str_DFin)
  next
    case False
    have "strip_with int_space ?body = c # cs"
      using printed_strip [of False "m div 10 ^ k" m k] c by simp
    moreover from p c have "int_body (c # cs) = None" by simp
    ultimately show ?thesis using False DFin sg
      by (simp add: int_parse_def dfloat_str_DFin)
  qed
next
  case (DInf neg)
  have "int_parse ''inf'' = None" "int_parse ''-inf'' = None" by code_simp+
  with DInf show ?thesis by (simp add: dfloat_str_def)
next
  case DNaN
  have "int_parse ''nan'' = None" by code_simp
  with DNaN show ?thesis by (simp add: dfloat_str_def)
qed

lemma dfloat_str_plain: "CHR ''$'' \<notin> set (dfloat_str f) \<and> CHR '','' \<notin> set (dfloat_str f)"
proof (cases f)
  case (DFin neg m k)
  have "\<And>c. c \<in> set (str_nat (m div 10 ^ k)) \<or> c \<in> set (frac_digits m k) \<Longrightarrow> is_digit c"
    using str_nat_digits frac_digits_digits by blast
  then have "\<And>c. c \<in> set (str_nat (m div 10 ^ k)) \<or> c \<in> set (frac_digits m k)
      \<Longrightarrow> c \<noteq> CHR ''$'' \<and> c \<noteq> CHR '',''"
    by (auto simp: is_digit_def)
  with DFin show ?thesis by (auto simp: dfloat_str_DFin)
qed (simp_all add: dfloat_str_def)

lemma dfloat_ops_ok: "float_ops_ok dfloat_ops"
proof -
  have a: "\<forall>f. fl_is_integer dfloat_ops f \<longrightarrow> (\<exists>n. fl_to_int dfloat_ops f = Inr n)"
    by (auto simp: dfloat_ops_def dfloat_is_integer_def dfloat_to_int_def split: dfloat.splits)
  have b: "\<forall>s f. fl_parse dfloat_ops s = Some f \<longrightarrow> float_repr_ok dfloat_ops f"
    using dfloat_parse_normal dfloat_round_trip dfloat_str_not_int dfloat_str_plain
    by (auto simp: float_repr_ok_def dfloat_ops_def)
  from a b show ?thesis by (simp add: float_ops_ok_def)
qed

text \<open>Rules to evaluate \<open>numeric\<close> on the reference float, and the examples of its docstring.\<close>

lemma dnorm_drop: "0 < k \<Longrightarrow> m mod 10 = 0 \<Longrightarrow> dnorm m k = dnorm (m div 10) (k - 1)"
  by (cases k) auto

lemma dnorm_keep: "0 < k \<Longrightarrow> m mod 10 \<noteq> 0 \<Longrightarrow> dnorm m k = (m, k)"
  by (cases k) auto

lemmas text_eval = numeric_text_def re_numeric_match_def re_numeric_body_def
  currency_symbols_def is_digit_def int_parse_def strip_with_def int_space_def int_body_def
  digit_val_def

lemmas dfloat_eval = dfloat_ops_def dfloat_parse_def dec_number_def dec_mantissa_def
  digit_part_def not_e_def to_lower_def dec_exponent_def dnorm_drop dnorm_keep
  dfloat_is_integer_def dfloat_to_int_def

lemma numeric_examples:
  "numeric dfloat_ops (CStr ''4'') = Inr (CInt 4)
   \<and> numeric dfloat_ops (CStr ''4.0000'') = Inr (CInt 4)
   \<and> numeric dfloat_ops (CStr ''3.25'') = Inr (CFloat (DFin False 325 2))
   \<and> numeric dfloat_ops (CStr ''testing'') = Inr (CStr ''testing'')
   \<and> numeric dfloat_ops (CStr ''$123,456.789'') = Inr (CFloat (DFin False 123456789 3))"
  by (simp add: numeric_def py_str_def text_eval dfloat_eval)

text \<open>
  C6, as amended. For floats that meet \<open>float_ops_ok\<close>, \<open>numeric\<close> returns on every
  string \<open>x\<close>, and coercing the string rendering of the result returns the same value
  again. The two results are equal under \<open>==\<close> unless the value is a float that is not
  equal to itself.
\<close>

theorem numeric_idempotent:
  assumes "float_ops_ok F"
  shows "\<exists>v. numeric F (CStr x) = Inr v \<and> numeric F (CStr (py_str F v)) = Inr v
           \<and> (py_eq F v v \<longleftrightarrow> (\<forall>f. v = CFloat f \<longrightarrow> fl_eq F f f))"
proof -
  have e: "\<And>v. py_eq F v v \<longleftrightarrow> (\<forall>f. v = CFloat f \<longrightarrow> fl_eq F f f)"
    by (simp add: py_eq_def split: cell.splits)
  have "\<exists>v. numeric F (CStr x) = Inr v \<and> numeric F (CStr (py_str F v)) = Inr v"
  proof (cases "int_parse (numeric_text x)")
    case (Some n)
    then have "numeric F (CStr x) = Inr (CInt n)" by (simp add: numeric_cases)
    moreover have "numeric F (CStr (py_str F (CInt n))) = Inr (CInt n)"
      using str_int_plain [of n]
      by (simp add: numeric_cases py_str_def numeric_text_id int_parse_str_int)
    ultimately show ?thesis by blast
  next
    case None
    note ni = None
    show ?thesis
    proof (cases "fl_parse F (numeric_text x)")
      case None
      with ni have "numeric F (CStr x) = Inr (CStr x)" by (simp add: numeric_cases)
      then show ?thesis by (simp add: py_str_def)
    next
      case (Some f)
      with assms have ok: "float_repr_ok F f" by (auto simp: float_ops_ok_def)
      show ?thesis
      proof (cases "fl_is_integer F f")
        case True
        with assms obtain n where n: "fl_to_int F f = Inr n" by (auto simp: float_ops_ok_def)
        with ni Some True have "numeric F (CStr x) = Inr (CInt n)" by (simp add: numeric_cases)
        moreover have "numeric F (CStr (py_str F (CInt n))) = Inr (CInt n)"
          using str_int_plain [of n]
          by (simp add: numeric_cases py_str_def numeric_text_id int_parse_str_int)
        ultimately show ?thesis by blast
      next
        case False
        with ni Some have a: "numeric F (CStr x) = Inr (CFloat f)" by (simp add: numeric_cases)
        from ok have "numeric_text (fl_str F f) = fl_str F f"
          by (simp add: numeric_text_id float_repr_ok_def)
        with ok False have "numeric F (CStr (py_str F (CFloat f))) = Inr (CFloat f)"
          by (simp add: numeric_cases py_str_def float_repr_ok_def)
        with a show ?thesis by blast
      qed
    qed
  qed
  with e show ?thesis by blast
qed

theorem numeric_idempotent_witness:
  "float_ops_ok dfloat_ops
   \<and> numeric dfloat_ops (CStr ''3.25'') = Inr (CFloat (DFin False 325 2))
   \<and> numeric dfloat_ops (CStr (py_str dfloat_ops (CFloat (DFin False 325 2))))
       = Inr (CFloat (DFin False 325 2))
   \<and> py_eq dfloat_ops (CFloat (DFin False 325 2)) (CFloat (DFin False 325 2))"
proof -
  from numeric_idempotent [OF dfloat_ops_ok, of "''3.25''"] obtain v where
    v: "numeric dfloat_ops (CStr ''3.25'') = Inr v"
       "numeric dfloat_ops (CStr (py_str dfloat_ops v)) = Inr v"
       "py_eq dfloat_ops v v \<longleftrightarrow> (\<forall>f. v = CFloat f \<longrightarrow> fl_eq dfloat_ops f f)"
    by blast
  from v(1) numeric_examples have e: "v = CFloat (DFin False 325 2)" by simp
  have "fl_eq dfloat_ops (DFin False 325 2) (DFin False 325 2)"
    by (simp add: dfloat_ops_def dfloat_eq_def)
  with v e dfloat_ops_ok show ?thesis by simp
qed

text \<open>
  The claim as stated fails on \<open>nan\<close>: both coercions return the float NaN, and
  NaN \<open>==\<close> NaN is false.
\<close>

theorem numeric_nan:
  "numeric dfloat_ops (CStr ''nan'') = Inr (CFloat DNaN)
   \<and> numeric dfloat_ops (CStr (py_str dfloat_ops (CFloat DNaN))) = Inr (CFloat DNaN)
   \<and> \<not> py_eq dfloat_ops (CFloat DNaN) (CFloat DNaN)"
  by code_simp

text \<open>
  C5, as amended. For floats that meet \<open>float_ops_ok\<close> and every string \<open>s\<close> that does
  not start with a currency symbol other than the dollar sign: when \<open>s\<close> matches the
  pattern, a single leading currency symbol is stripped and the grouping separators are
  removed; then, whether the pattern matched or not, an integer parse of the text is
  tried, and on failure a decimal parse, whose result is narrowed to an integer when it
  has no fractional part; when both fail the original string is returned. On every
  string \<open>numeric\<close> returns without raising; it returns an integer as it is, and a
  decimal as it is or narrowed to the integer it equals.
\<close>

theorem numeric_algorithm:
  assumes "float_ops_ok F"
  shows "(\<not> other_currency s \<longrightarrow>
            numeric F (CStr s) =
              (case int_parse (cleaned s) of
                 Some n \<Rightarrow> Inr (CInt n)
               | None \<Rightarrow>
                   (case fl_parse F (cleaned s) of
                      None \<Rightarrow> Inr (CStr s)
                    | Some f \<Rightarrow>
                        if fl_is_integer F f
                        then (case fl_to_int F f of Inr n \<Rightarrow> Inr (CInt n) | Inl e \<Rightarrow> Inr (CStr s))
                        else Inr (CFloat f))))
         \<and> (\<exists>v. numeric F (CStr s) = Inr v)
         \<and> numeric F (CInt n) = Inr (CInt n)
         \<and> (float_repr_ok F f \<longrightarrow>
              numeric F (CFloat f) =
                (if fl_is_integer F f
                 then (case fl_to_int F f of Inr n \<Rightarrow> Inr (CInt n) | Inl e \<Rightarrow> Inr (CFloat f))
                 else Inr (CFloat f)))"
proof -
  have ti: "\<And>g. fl_is_integer F g \<Longrightarrow> \<exists>n. fl_to_int F g = Inr n"
    using assms by (auto simp: float_ops_ok_def)
  have a: "\<not> other_currency s \<longrightarrow>
            numeric F (CStr s) =
              (case int_parse (cleaned s) of
                 Some n \<Rightarrow> Inr (CInt n)
               | None \<Rightarrow>
                   (case fl_parse F (cleaned s) of
                      None \<Rightarrow> Inr (CStr s)
                    | Some f \<Rightarrow>
                        if fl_is_integer F f
                        then (case fl_to_int F f of Inr n \<Rightarrow> Inr (CInt n) | Inl e \<Rightarrow> Inr (CStr s))
                        else Inr (CFloat f)))"
    using ti by (fastforce simp: numeric_cases numeric_text_cleaned split: option.splits sum.splits)
  have b: "\<exists>v. numeric F (CStr s) = Inr v"
    using ti by (fastforce simp: numeric_cases split: option.splits sum.splits)
  have c: "numeric F (CInt n) = Inr (CInt n)" by (rule numeric_int)
  have d: "float_repr_ok F f \<longrightarrow>
              numeric F (CFloat f) =
                (if fl_is_integer F f
                 then (case fl_to_int F f of Inr n \<Rightarrow> Inr (CInt n) | Inl e \<Rightarrow> Inr (CFloat f))
                 else Inr (CFloat f))"
    using ti [of f]
    by (auto simp: numeric_def py_str_def numeric_text_id float_repr_ok_def Let_def)
  from a b c d show ?thesis by blast
qed

theorem numeric_algorithm_witness:
  "float_ops_ok dfloat_ops
   \<and> \<not> other_currency ''$1,234''
   \<and> numeric dfloat_ops (CStr ''$1,234'') = Inr (CInt 1234)
   \<and> float_repr_ok dfloat_ops (DFin False 325 2)
   \<and> numeric dfloat_ops (CFloat (DFin False 325 2)) = Inr (CFloat (DFin False 325 2))"
proof -
  have o: "\<not> other_currency ''$1,234''" by (simp add: other_currency_def)
  have c: "int_parse (cleaned ''$1,234'') = Some 1234"
    by (simp add: cleaned_def text_eval)
  have p: "fl_parse dfloat_ops ''3.25'' = Some (DFin False 325 2)"
    by (simp add: text_eval dfloat_eval)
  with dfloat_ops_ok have r: "float_repr_ok dfloat_ops (DFin False 325 2)"
    by (auto simp: float_ops_ok_def)
  have i: "\<not> fl_is_integer dfloat_ops (DFin False 325 2)"
    by (simp add: dfloat_eval)
  from numeric_algorithm [OF dfloat_ops_ok, of "''$1,234''" _ "DFin False 325 2"] o c r i
    dfloat_ops_ok
  show ?thesis by simp
qed

text \<open>
  The claim as stated fails: \<open>-5\<close> does not match the pattern, and is coerced to the
  integer \<open>-5\<close> all the same.
\<close>

theorem numeric_unmatched:
  "\<not> re_numeric_match ''-5'' \<and> numeric dfloat_ops (CStr ''-5'') = Inr (CInt (- 5))"
  by (simp add: numeric_def py_str_def text_eval)

section \<open>The driver\<close>












end
